theory Spec2Isabelle
  imports Main "HOL-Library.AList"
begin

section \<open>The request lifecycle of \<open>ApiService\<close> (leetspace frontend, \<open>lib/api.js\<close>)\<close>

text \<open>
  The development embeds the class \<open>ApiService\<close> of the frontend: the token fields and
  their copy in \<open>localStorage\<close>, \<open>setToken\<close>, \<open>clearTokens\<close>, \<open>getAuthHeaders\<close>,
  \<open>refreshAccessToken\<close> and \<open>request\<close> with its inner \<open>makeRequest\<close>.

  JavaScript runs one job at a time: a piece of code runs from the point where it is
  resumed to its next \<open>await\<close>, and the promise reactions it triggers run before any
  other network response is delivered. The model therefore has one atomic step per
  event of the event loop (a call by the application, a \<open>fetch\<close> that settles, a body
  that has been read) and every interleaving of requests is a list of such events.
\<close>

subsection \<open>JavaScript values\<close>

text \<open>
  Values as they arrive from JSON and from callers. A string is a list of bytes
  (UTF-8); \<open>JNum\<close> stands for a number with an integral value (a safe integer), the only
  numbers whose decimal form the model prints.
\<close>

datatype jsval =
    JUndefined
  | JNull
  | JBool bool
  | JNum int
  | JStr string
  | JArr "jsval list"
  | JObj "(string \<times> jsval) list"

type_synonym props = "(string \<times> jsval) list"

text \<open>What \<open>if (v)\<close> and \<open>v || w\<close> test.\<close>

fun truthy :: "jsval \<Rightarrow> bool" where
  "truthy JUndefined = False"
| "truthy JNull = False"
| "truthy (JBool b) = b"
| "truthy (JNum n) = (n \<noteq> 0)"
| "truthy (JStr s) = (s \<noteq> [])"
| "truthy (JArr xs) = True"
| "truthy (JObj ps) = True"

definition digit_char :: "nat \<Rightarrow> char" where
  "digit_char d = ''0123456789'' ! (d mod 10)"

fun show_nat :: "nat \<Rightarrow> string" where
  "show_nat n = (if n < 10 then [digit_char n] else show_nat (n div 10) @ [digit_char (n mod 10)])"

declare show_nat.simps [simp del]

definition show_int :: "int \<Rightarrow> string" where
  "show_int i = (if i < 0 then CHR ''-'' # show_nat (nat (- i)) else show_nat (nat i))"

fun join_with :: "string \<Rightarrow> string list \<Rightarrow> string" where
  "join_with sep [] = []"
| "join_with sep [x] = x"
| "join_with sep (x # y # ys) = x @ sep @ join_with sep (y # ys)"

text \<open>
  \<open>String(v)\<close>, which template literals, \<open>new Error(v)\<close>, \<open>localStorage.setItem\<close> and
  \<open>URLSearchParams.append\<close> all apply to their argument.
\<close>

fun to_string :: "jsval \<Rightarrow> string" where
  "to_string JUndefined = ''undefined''"
| "to_string JNull = ''null''"
| "to_string (JBool b) = (if b then ''true'' else ''false'')"
| "to_string (JNum n) = show_int n"
| "to_string (JStr s) = s"
| "to_string (JArr xs) =
     join_with '','' (map (\<lambda>x. if x = JUndefined \<or> x = JNull then [] else to_string x) xs)"
| "to_string (JObj ps) = ''[object Object]''"

text \<open>
  An object is the list of its own properties in enumeration order. \<open>get_own\<close> reads
  \<open>obj.k\<close> of an object, \<open>AList.update\<close> assigns a property (in place when the key exists,
  at the end otherwise), \<open>AList.delete\<close> is \<open>delete obj.k\<close>.
\<close>

definition get_own :: "props \<Rightarrow> string \<Rightarrow> jsval" where
  "get_own ps k = (case map_of ps k of Some v \<Rightarrow> v | None \<Rightarrow> JUndefined)"

text \<open>The object spread \<open>{...base, ...src}\<close>: the properties of \<open>src\<close> assigned in order.\<close>

definition spread :: "props \<Rightarrow> props \<Rightarrow> props" where
  "spread base src = fold (\<lambda>(k, v). AList.update k v) src base"

text \<open>\<open>Object.entries(v)\<close> for a truthy value.\<close>

fun entries :: "jsval \<Rightarrow> props" where
  "entries (JObj ps) = ps"
| "entries (JArr xs) = zip (map show_nat [0..<length xs]) xs"
| "entries (JStr s) = zip (map show_nat [0..<length s]) (map (\<lambda>c. JStr [c]) s)"
| "entries v = []"

subsection \<open>Errors\<close>

text \<open>
  The values the code throws: \<open>new Error(message)\<close>; the error of a failed response,
  an \<open>Error\<close> with \<open>status\<close> and \<open>data\<close> attached; the \<open>TypeError\<close> of a property read on
  \<open>null\<close>; the \<open>SyntaxError\<close> of \<open>response.json()\<close> on a body that is not JSON; the
  rejection of \<open>fetch\<close> itself.
\<close>

datatype js_error =
    Error string
  | HttpError string nat jsval
  | TypeError
  | SyntaxError
  | FetchFailed

definition SessionExpired :: js_error where
  "SessionExpired = Error ''Session expired. Please log in again.''"

definition NoRefreshToken :: js_error where
  "NoRefreshToken = Error ''No refresh token available''"

definition RefreshFailed :: js_error where
  "RefreshFailed = Error ''Token refresh failed''"

text \<open>
  \<open>v.k\<close> for a key that no prototype defines (\<open>detail\<close>, \<open>access_token\<close>,
  \<open>refresh_token\<close>): a \<open>TypeError\<close> on \<open>null\<close> and \<open>undefined\<close>, the own property of an
  object, \<open>undefined\<close> on every other value.
\<close>

fun get_member :: "jsval \<Rightarrow> string \<Rightarrow> js_error + jsval" where
  "get_member JUndefined k = Inl TypeError"
| "get_member JNull k = Inl TypeError"
| "get_member (JObj ps) k = Inr (get_own ps k)"
| "get_member v k = Inr JUndefined"

subsection \<open>Responses, network calls, tasks\<close>

text \<open>
  A response as the code reads it: the status, and the body as \<open>response.json()\<close>
  parses it (\<open>None\<close> when the body is not JSON, so that \<open>json()\<close> rejects).
\<close>

record response =
  status :: nat
  body :: "jsval option"

definition ok :: "response \<Rightarrow> bool" where
  "ok r = (200 \<le> status r \<and> status r \<le> 299)"

text \<open>
  The log of \<open>fetch\<close> calls. A call is issued by the request with a given index, or by
  the refresh with a given promise id.
\<close>

datatype caller = Req nat | Refresh nat

datatype fetch_call = Fetch (fc_who: caller) (fc_url: string) (fc_init: props)

datatype outcome = Returned jsval | Threw js_error

text \<open>
  Where one call of \<open>request\<close> stands: suspended in \<open>makeRequest(retryCount)\<close> at
  \<open>await fetch(url, config)\<close>, suspended at \<open>await this.refreshAccessToken()\<close> on the
  promise with the given id, or finished.
\<close>

datatype phase = AwaitFetch nat | AwaitRefresh nat | Done outcome

text \<open>A task keeps the variables \<open>makeRequest\<close> closes over: \<open>url\<close> and \<open>options\<close>.\<close>

record task =
  t_url :: string
  t_options :: props
  t_phase :: phase

text \<open>
  Where the pending refresh stands: at its \<open>fetch\<close>, or inside the \<open>then\<close> callback at
  \<open>await response.json()\<close>.
\<close>

datatype refresh_phase = RFetch | RBody response

subsection \<open>State\<close>

text \<open>
  The fields of the \<open>ApiService\<close> singleton, the two browser globals it writes, the
  requests in flight and the log of network calls. \<open>settled\<close> is a ghost field: the ids
  of the refresh promises that have settled; the program never reads it.
\<close>

record state =
  token :: jsval
  refreshToken :: jsval
  refreshPromise :: "(nat \<times> refresh_phase) option"
  localStorage :: "string \<rightharpoonup> string"
  location_href :: string
  tasks :: "task list"
  net :: "fetch_call list"
  settled :: "nat list"

definition API_BASE_URL :: string where
  "API_BASE_URL = ''http://localhost:8000/api''"

definition getItem :: "string \<Rightarrow> state \<Rightarrow> jsval" where
  "getItem k s = (case localStorage s k of Some v \<Rightarrow> JStr v | None \<Rightarrow> JNull)"

definition setItem :: "string \<Rightarrow> jsval \<Rightarrow> state \<Rightarrow> state" where
  "setItem k v s = s\<lparr>localStorage := (localStorage s)(k \<mapsto> to_string v)\<rparr>"

definition removeItem :: "string \<Rightarrow> state \<Rightarrow> state" where
  "removeItem k s = s\<lparr>localStorage := (localStorage s)(k := None)\<rparr>"

text \<open>The constructor, on a page whose \<open>localStorage\<close> is \<open>ls\<close>.\<close>

definition constructor :: "(string \<rightharpoonup> string) \<Rightarrow> string \<Rightarrow> state" where
  "constructor ls href =
     (let s = \<lparr>token = JNull, refreshToken = JNull, refreshPromise = None,
                localStorage = ls, location_href = href, tasks = [], net = [], settled = []\<rparr>
      in s\<lparr>token := getItem ''access_token'' s, refreshToken := getItem ''refresh_token'' s\<rparr>)"

subsection \<open>Token store\<close>

text \<open>
  \<open>setToken(accessToken, refreshToken = null)\<close>. An omitted argument is \<open>JUndefined\<close>;
  the default parameter turns it into \<open>null\<close> before the body runs.
\<close>

definition setToken :: "jsval \<Rightarrow> jsval \<Rightarrow> state \<Rightarrow> state" where
  "setToken accessToken refreshTokenArg s =
     (let refreshTok = (if refreshTokenArg = JUndefined then JNull else refreshTokenArg);
          s1 = s\<lparr>token := accessToken\<rparr>;
          s2 = (if truthy refreshTok then s1\<lparr>refreshToken := refreshTok\<rparr> else s1);
          s3 = (if truthy accessToken then setItem ''access_token'' accessToken s2
                else removeItem ''access_token'' s2)
      in if truthy refreshTok then setItem ''refresh_token'' refreshTok s3
         else if refreshTok = JNull then removeItem ''refresh_token'' s3
         else s3)"

definition clearTokens :: "state \<Rightarrow> state" where
  "clearTokens s =
     removeItem ''refresh_token'' (removeItem ''access_token''
       (s\<lparr>token := JNull, refreshToken := JNull\<rparr>))"

definition getAuthHeaders :: "state \<Rightarrow> props" where
  "getAuthHeaders s =
     (let headers = [(''Content-Type'', JStr ''application/json'')]
      in if truthy (token s)
         then AList.update ''Authorization'' (JStr (''Bearer '' @ to_string (token s))) headers
         else headers)"

subsection \<open>The request URL\<close>

text \<open>
  \<open>URLSearchParams.toString()\<close>: the application/x-www-form-urlencoded serializer.
  Every byte outside the alphanumerics and \<open>* - . _\<close> is percent-encoded, a space
  becomes \<open>+\<close>, and the pairs \<open>name=value\<close> are joined with \<open>&\<close>.
\<close>

definition hex_digit :: "nat \<Rightarrow> char" where
  "hex_digit d = ''0123456789ABCDEF'' ! (d mod 16)"

definition unreserved :: "char \<Rightarrow> bool" where
  "unreserved c =
     (c \<in> set ''ABCDEFGHIJKLMNOPQRSTUVWXYZabcdefghijklmnopqrstuvwxyz0123456789*-._'')"

definition urlencode_byte :: "char \<Rightarrow> string" where
  "urlencode_byte c =
     (if unreserved c then [c]
      else if c = CHR '' '' then ''+''
      else [CHR ''%'', hex_digit (of_char c div 16), hex_digit (of_char c mod 16)])"

definition urlencode :: "string \<Rightarrow> string" where
  "urlencode s = concat (map urlencode_byte s)"

definition search_params_to_string :: "(string \<times> string) list \<Rightarrow> string" where
  "search_params_to_string ps =
     join_with ''&'' (map (\<lambda>(k, v). urlencode k @ ''='' @ urlencode v) ps)"

text \<open>The pairs that the \<open>forEach\<close> over \<open>Object.entries(options.params)\<close> appends.\<close>

definition appended_params :: "jsval \<Rightarrow> (string \<times> string) list" where
  "appended_params params =
     map (\<lambda>(key, v). (key, to_string v))
       (filter (\<lambda>(key, v). v \<noteq> JNull \<and> v \<noteq> JUndefined) (entries params))"

text \<open>The first part of \<open>request\<close>: the URL of the call.\<close>

definition request_url :: "string \<Rightarrow> props \<Rightarrow> string" where
  "request_url endpoint options =
     (let url = API_BASE_URL @ endpoint
      in if truthy (get_own options ''params'')
         then (let queryString = search_params_to_string (appended_params (get_own options ''params''))
               in if queryString \<noteq> [] then url @ ''?'' @ queryString else url)
         else url)"

text \<open>
  What a server reads back from a query string (the application/x-www-form-urlencoded
  parser): the string is split at \<open>&\<close>, empty pieces are skipped, a piece is split
  at its first \<open>=\<close> into name and value, \<open>+\<close> is a space and \<open>%XX\<close> a byte. It is used
  to state which parameters a URL carries.
\<close>

definition hex_value :: "char \<Rightarrow> nat option" where
  "hex_value c =
     List.find (\<lambda>d. ''0123456789ABCDEF'' ! d = c \<or> ''0123456789abcdef'' ! d = c) [0..<16]"

fun urldecode :: "string \<Rightarrow> string" where
  "urldecode [] = []"
| "urldecode [c] = [if c = CHR ''+'' then CHR '' '' else c]"
| "urldecode [c, d] = (if c = CHR ''+'' then CHR '' '' else c) # urldecode [d]"
| "urldecode (c # h # l # cs) =
     (if c = CHR ''+'' then CHR '' '' # urldecode (h # l # cs)
      else if c = CHR ''%''
      then (case (hex_value h, hex_value l) of
              (Some a, Some b) \<Rightarrow> char_of (16 * a + b) # urldecode cs
            | other \<Rightarrow> c # urldecode (h # l # cs))
      else c # urldecode (h # l # cs))"

fun split_on :: "char \<Rightarrow> string \<Rightarrow> string list" where
  "split_on sep [] = [[]]"
| "split_on sep (c # cs) =
     (if c = sep then [] # split_on sep cs
      else (case split_on sep cs of w # ws \<Rightarrow> (c # w) # ws | [] \<Rightarrow> [[c]]))"

definition decode_pair :: "string \<Rightarrow> string \<times> string" where
  "decode_pair p =
     (urldecode (takeWhile (\<lambda>c. c \<noteq> CHR ''='') p),
      urldecode (drop 1 (dropWhile (\<lambda>c. c \<noteq> CHR ''='') p)))"

definition decode_query :: "string \<Rightarrow> (string \<times> string) list" where
  "decode_query q = map decode_pair (filter (\<lambda>p. p \<noteq> []) (split_on (CHR ''&'') q))"

subsection \<open>\<open>makeRequest\<close>\<close>

text \<open>
  \<open>const config = {headers: this.getAuthHeaders(), ...options}; delete config.params\<close>
\<close>

definition make_config :: "state \<Rightarrow> props \<Rightarrow> props" where
  "make_config s options =
     AList.delete ''params'' (spread [(''headers'', JObj (getAuthHeaders s))] options)"

definition set_phase :: "nat \<Rightarrow> phase \<Rightarrow> state \<Rightarrow> state" where
  "set_phase i p s = s\<lparr>tasks := (tasks s)[i := (tasks s ! i)\<lparr>t_phase := p\<rparr>]\<rparr>"

text \<open>
  \<open>makeRequest(retryCount)\<close> of task \<open>i\<close> up to its \<open>await fetch(url, config)\<close>: the
  config is built from the headers of this moment, the call is issued, the task
  is suspended.
\<close>

definition makeRequest :: "nat \<Rightarrow> nat \<Rightarrow> state \<Rightarrow> state" where
  "makeRequest i retryCount s =
     (let t = tasks s ! i;
          config = make_config s (t_options t)
      in set_phase i (AwaitFetch retryCount) (s\<lparr>net := net s @ [Fetch (Req i) (t_url t) config]\<rparr>))"

text \<open>\<open>request(endpoint, options)\<close>: a new task, run up to its first \<open>await\<close>.\<close>

definition request :: "string \<Rightarrow> props \<Rightarrow> state \<Rightarrow> state" where
  "request endpoint options s =
     (let url = request_url endpoint options;
          i = length (tasks s)
      in makeRequest i 0
           (s\<lparr>tasks := tasks s @ [\<lparr>t_url = url, t_options = options, t_phase = AwaitFetch 0\<rparr>]\<rparr>))"

subsection \<open>\<open>refreshAccessToken\<close>\<close>

text \<open>The \<open>init\<close> of the refresh call; its body is the object given to \<open>JSON.stringify\<close>.\<close>

definition refresh_init :: "state \<Rightarrow> props" where
  "refresh_init s =
     [(''method'', JStr ''POST''),
      (''headers'', JObj [(''Content-Type'', JStr ''application/json'')]),
      (''body'', JObj [(''refresh_token'', refreshToken s)])]"

text \<open>
  The synchronous part of \<open>refreshAccessToken()\<close>: it throws, or returns the pending
  promise, or issues the refresh call and stores its promise. A new promise takes
  the length of the log as its id.
\<close>

definition refreshAccessToken :: "state \<Rightarrow> (js_error + nat) \<times> state" where
  "refreshAccessToken s =
     (if \<not> truthy (refreshToken s) then (Inl NoRefreshToken, s)
      else (case refreshPromise s of
              Some (pid, ph) \<Rightarrow> (Inr pid, s)
            | None \<Rightarrow>
                (let pid = length (net s)
                 in (Inr pid,
                     s\<lparr>refreshPromise := Some (pid, RFetch),
                       net := net s @ [Fetch (Refresh pid) (API_BASE_URL @ ''/auth/refresh'')
                                         (refresh_init s)]\<rparr>))))"

text \<open>
  The promise chain \<open>fetch(...).then(...).finally(...)\<close>. \<open>refresh_then\<close> is the \<open>then\<close>
  callback from \<open>await response.json()\<close> on: it returns the data, or the error thrown.
\<close>

definition refresh_then :: "response \<Rightarrow> state \<Rightarrow> (js_error + jsval) \<times> state" where
  "refresh_then resp s =
     (case body resp of
        None \<Rightarrow> (Inl SyntaxError, s)
      | Some data \<Rightarrow>
          (case get_member data ''access_token'' of
             Inl e \<Rightarrow> (Inl e, s)
           | Inr accessTok \<Rightarrow>
               (case get_member data ''refresh_token'' of
                  Inl e \<Rightarrow> (Inl e, s)
                | Inr refreshTok \<Rightarrow> (Inr data, setToken accessTok refreshTok s))))"

definition refresh_finally :: "nat \<Rightarrow> state \<Rightarrow> state" where
  "refresh_finally pid s = s\<lparr>refreshPromise := None, settled := pid # settled s\<rparr>"

text \<open>
  What the chain of the pending refresh does on an event of its own: \<open>None\<close> when the
  event is not enabled; otherwise the promise id, the state after the handlers of
  the chain have run, and how the promise settled (\<open>None\<close> while it is still pending).
\<close>

datatype refresh_event = RefreshResolves response | RefreshRejects | RefreshBodyRead

definition refresh_chain ::
  "refresh_event \<Rightarrow> state \<Rightarrow> (nat \<times> (js_error + jsval) option \<times> state) option" where
  "refresh_chain ev s =
     (case (refreshPromise s, ev) of
        (Some (pid, RFetch), RefreshResolves resp) \<Rightarrow>
          (if \<not> ok resp then Some (pid, Some (Inl RefreshFailed), refresh_finally pid s)
           else Some (pid, None, s\<lparr>refreshPromise := Some (pid, RBody resp)\<rparr>))
      | (Some (pid, RFetch), RefreshRejects) \<Rightarrow>
          Some (pid, Some (Inl FetchFailed), refresh_finally pid s)
      | (Some (pid, RBody resp), RefreshBodyRead) \<Rightarrow>
          (case refresh_then resp s of
             (r, s') \<Rightarrow> Some (pid, Some r, refresh_finally pid s'))
      | _ \<Rightarrow> None)"

subsection \<open>Continuations of \<open>makeRequest\<close>\<close>

text \<open>The \<open>catch (refreshError)\<close> block of task \<open>i\<close>.\<close>

definition session_expired :: "nat \<Rightarrow> state \<Rightarrow> state" where
  "session_expired i s =
     set_phase i (Done (Threw SessionExpired)) ((clearTokens s)\<lparr>location_href := ''/auth''\<rparr>)"

text \<open>
  Task \<open>i\<close> after \<open>await this.refreshAccessToken()\<close>, when promise \<open>pid\<close> has settled
  with \<open>r\<close>: \<open>return makeRequest(1)\<close>, or the \<open>catch\<close> block. The promise returned by
  \<open>makeRequest(1)\<close> is returned without \<open>await\<close>, so the \<open>catch\<close> block does not see
  its rejection.
\<close>

definition resume :: "nat \<Rightarrow> (js_error + jsval) \<Rightarrow> nat \<Rightarrow> state \<Rightarrow> state" where
  "resume pid r i s =
     (if t_phase (tasks s ! i) = AwaitRefresh pid
      then (case r of Inr data \<Rightarrow> makeRequest i 1 s | Inl e \<Rightarrow> session_expired i s)
      else s)"

text \<open>All tasks suspended on promise \<open>pid\<close> run on in the job that settles it.\<close>

definition resume_all :: "nat \<Rightarrow> (js_error + jsval) \<Rightarrow> state \<Rightarrow> state" where
  "resume_all pid r s = fold (resume pid r) [0..<length (tasks s)] s"

text \<open>
  The error thrown for a response that is not ok:
  \<open>errorData = await response.json().catch(() => ({}))\<close>, then an \<open>Error\<close> with the
  message \<open>errorData.detail || `HTTP error! status: ${response.status}`\<close>, with
  \<open>status\<close> and \<open>data\<close> attached. Reading \<open>detail\<close> of a body that is \<open>null\<close> throws
  instead.
\<close>

definition response_error :: "response \<Rightarrow> js_error" where
  "response_error resp =
     (let errorData = (case body resp of Some v \<Rightarrow> v | None \<Rightarrow> JObj [])
      in case get_member errorData ''detail'' of
           Inl e \<Rightarrow> e
         | Inr detail \<Rightarrow>
             HttpError
               (if truthy detail then to_string detail
                else ''HTTP error! status: '' @ show_nat (status resp))
               (status resp) errorData)"

text \<open>
  Task \<open>i\<close>, suspended in \<open>makeRequest(retryCount)\<close>, when its \<open>fetch\<close> resolves with
  \<open>resp\<close>. The code after \<open>await response.json()\<close> reads no field of the service, so
  the two are one step. The outer \<open>catch\<close> rethrows the error it caught in both of
  its branches (one of them logs to the console first), so it is the identity here.
\<close>

definition on_response :: "nat \<Rightarrow> nat \<Rightarrow> response \<Rightarrow> state \<Rightarrow> state" where
  "on_response i retryCount resp s =
     (if status resp = 401 \<and> retryCount = 0 \<and> truthy (refreshToken s)
      then (case refreshAccessToken s of
              (Inr pid, s') \<Rightarrow> set_phase i (AwaitRefresh pid) s'
            | (Inl e, s') \<Rightarrow> session_expired i s')
      else if \<not> ok resp
      then set_phase i (Done (Threw (response_error resp))) s
      else (case body resp of
              Some v \<Rightarrow> set_phase i (Done (Returned v)) s
            | None \<Rightarrow> set_phase i (Done (Threw SyntaxError)) s))"

subsection \<open>Events and runs\<close>

text \<open>
  The events of the event loop: the application calls \<open>request\<close>, \<open>setToken\<close> or
  \<open>clearTokens\<close>; the \<open>fetch\<close> of a task resolves or rejects; the refresh chain moves.
\<close>

datatype event =
    Call string props
  | CallSetToken jsval jsval
  | CallClearTokens
  | FetchResolves nat response
  | FetchRejects nat
  | RefreshEv refresh_event

definition step :: "event \<Rightarrow> state \<Rightarrow> state option" where
  "step ev s =
     (case ev of
        Call endpoint options \<Rightarrow> Some (request endpoint options s)
      | CallSetToken a r \<Rightarrow> Some (setToken a r s)
      | CallClearTokens \<Rightarrow> Some (clearTokens s)
      | FetchResolves i resp \<Rightarrow>
          (if i < length (tasks s)
           then (case t_phase (tasks s ! i) of
                   AwaitFetch retryCount \<Rightarrow> Some (on_response i retryCount resp s)
                 | _ \<Rightarrow> None)
           else None)
      | FetchRejects i \<Rightarrow>
          (if i < length (tasks s)
           then (case t_phase (tasks s ! i) of
                   AwaitFetch retryCount \<Rightarrow> Some (set_phase i (Done (Threw FetchFailed)) s)
                 | _ \<Rightarrow> None)
           else None)
      | RefreshEv rv \<Rightarrow>
          (case refresh_chain rv s of
             None \<Rightarrow> None
           | Some (pid, None, s') \<Rightarrow> Some s'
           | Some (pid, Some r, s') \<Rightarrow> Some (resume_all pid r s')))"

fun run :: "event list \<Rightarrow> state \<Rightarrow> state option" where
  "run [] s = Some s"
| "run (ev # evs) s = (case step ev s of None \<Rightarrow> None | Some s' \<Rightarrow> run evs s')"

subsection \<open>Observations\<close>

text \<open>The refresh calls of a log, and the refresh operations issued and not yet settled.\<close>

fun refresh_ids :: "fetch_call list \<Rightarrow> nat list" where
  "refresh_ids [] = []"
| "refresh_ids (Fetch (Refresh pid) u c # cs) = pid # refresh_ids cs"
| "refresh_ids (Fetch (Req i) u c # cs) = refresh_ids cs"


text \<open>The calls that request \<open>i\<close> has issued, in order.\<close>

definition calls_of :: "nat \<Rightarrow> state \<Rightarrow> fetch_call list" where
  "calls_of i s = filter (\<lambda>c. fc_who c = Req i) (net s)"

text \<open>The headers a call was issued with, and one header of them.\<close>

definition header_of :: "props \<Rightarrow> string \<Rightarrow> jsval" where
  "header_of config name =
     (case get_own config ''headers'' of JObj hs \<Rightarrow> get_own hs name | v \<Rightarrow> JUndefined)"

text \<open>A config without the \<open>Authorization\<close> header of its \<open>headers\<close>.\<close>

fun strip_authorization :: "jsval \<Rightarrow> jsval" where
  "strip_authorization (JObj hs) = JObj (AList.delete ''Authorization'' hs)"
| "strip_authorization v = v"

definition without_authorization :: "props \<Rightarrow> props" where
  "without_authorization config =
     AList.map_ran (\<lambda>k v. if k = ''headers'' then strip_authorization v else v) config"

text \<open>
  The state the \<open>catch (refreshError)\<close> block leaves: no token in the fields or in
  storage, and the page sent to \<open>/auth\<close>.
\<close>

definition session_cleared :: "state \<Rightarrow> bool" where
  "session_cleared s \<longleftrightarrow> token s = JNull \<and> refreshToken s = JNull \<and>
     localStorage s ''access_token'' = None \<and> localStorage s ''refresh_token'' = None \<and>
     location_href s = ''/auth''"

subsection \<open>Invariants of a run\<close>

text \<open>
  How many calls a request in a given phase may have issued: one before its retry,
  two from the retry on.
\<close>

fun budget :: "phase \<Rightarrow> nat" where
  "budget (AwaitFetch retryCount) = (if retryCount = 0 then 1 else 2)"
| "budget (AwaitRefresh pid) = 1"
| "budget (Done out) = 2"

text \<open>
  A call of the log belongs to a task, goes to the URL of that task and carries a
  config built from the options of that task.
\<close>

fun call_ok :: "task list \<Rightarrow> fetch_call \<Rightarrow> bool" where
  "call_ok ts (Fetch (Req i) u c) =
     (i < length ts \<and> u = t_url (ts ! i) \<and> (\<exists>\<sigma>. c = make_config \<sigma> (t_options (ts ! i))))"
| "call_ok ts (Fetch (Refresh pid) u c) = True"

definition log_inv :: "state \<Rightarrow> bool" where
  "log_inv s \<longleftrightarrow>
     (\<forall>c\<in>set (net s). call_ok (tasks s) c) \<and>
     (\<forall>i<length (tasks s). length (calls_of i s) \<le> budget (t_phase (tasks s ! i)))"



subsection \<open>Objects in a store\<close>












subsection \<open>Example data\<close>

text \<open>A page that has both tokens stored, and one that has only the access token.\<close>

definition stored_pair :: "string \<rightharpoonup> string" where
  "stored_pair = [''access_token'' \<mapsto> ''a0'', ''refresh_token'' \<mapsto> ''r0'']"

definition stored_access :: "string \<rightharpoonup> string" where
  "stored_access = [''access_token'' \<mapsto> ''a0'']"

text \<open>
  The response of the backend to an expired access token, to a refresh, and an error
  response whose body is the JSON literal \<open>null\<close>.
\<close>

definition expired_response :: response where
  "expired_response =
     \<lparr>status = 401, body = Some (JObj [(''detail'', JStr ''Could not validate credentials'')])\<rparr>"

definition new_pair_response :: response where
  "new_pair_response =
     \<lparr>status = 200,
      body = Some (JObj [(''access_token'', JStr ''a1''), (''refresh_token'', JStr ''r1'')])\<rparr>"

definition null_error_response :: response where
  "null_error_response = \<lparr>status = 500, body = Some JNull\<rparr>"

text \<open>
  A page with both tokens stored, after one request has received a 401 and started
  the refresh (promise 1), and the same page when the refresh response has arrived.
\<close>

definition waiting_state :: state where
  "waiting_state =
     on_response 0 0 expired_response (request ''/problems'' [] (constructor stored_pair ''/''))"



definition retry_events :: "event list" where
  "retry_events =
     [Call ''/problems'' [(''method'', JStr ''POST''), (''body'', JStr ''{}'')],
      FetchResolves 0 expired_response,
      RefreshEv (RefreshResolves new_pair_response),
      RefreshEv RefreshBodyRead]"


section \<open>Fields after each operation\<close>

text \<open>
  The definitions that a concrete run unfolds, and what each operation leaves in
  each field of the state.
\<close>

lemmas eval_defs =
  step_def on_response_def request_def makeRequest_def set_phase_def make_config_def spread_def
  getAuthHeaders_def request_url_def get_own_def API_BASE_URL_def refreshAccessToken_def
  refresh_init_def refresh_chain_def refresh_then_def refresh_finally_def resume_all_def
  resume_def session_expired_def clearTokens_def setToken_def setItem_def removeItem_def
  getItem_def constructor_def response_error_def ok_def Let_def
  SessionExpired_def NoRefreshToken_def RefreshFailed_def

lemma set_phase_fields [simp]:
  "token (set_phase i p s) = token s"
  "refreshToken (set_phase i p s) = refreshToken s"
  "refreshPromise (set_phase i p s) = refreshPromise s"
  "localStorage (set_phase i p s) = localStorage s"
  "location_href (set_phase i p s) = location_href s"
  "net (set_phase i p s) = net s"
  "settled (set_phase i p s) = settled s"
  "tasks (set_phase i p s) = (tasks s)[i := (tasks s ! i)\<lparr>t_phase := p\<rparr>]"
  by (simp_all add: set_phase_def)

lemma make_config_token: "token s = token s' \<Longrightarrow> make_config s options = make_config s' options"
  by (simp add: make_config_def getAuthHeaders_def Let_def cong: if_cong)

lemma makeRequest_fields [simp]:
  "token (makeRequest i rc s) = token s"
  "refreshToken (makeRequest i rc s) = refreshToken s"
  "refreshPromise (makeRequest i rc s) = refreshPromise s"
  "localStorage (makeRequest i rc s) = localStorage s"
  "location_href (makeRequest i rc s) = location_href s"
  "settled (makeRequest i rc s) = settled s"
  "tasks (makeRequest i rc s) = (tasks s)[i := (tasks s ! i)\<lparr>t_phase := AwaitFetch rc\<rparr>]"
  by (simp_all add: makeRequest_def Let_def)

lemma clearTokens_fields [simp]:
  "token (clearTokens s) = JNull"
  "refreshToken (clearTokens s) = JNull"
  "refreshPromise (clearTokens s) = refreshPromise s"
  "localStorage (clearTokens s) = (localStorage s)(''access_token'' := None, ''refresh_token'' := None)"
  "location_href (clearTokens s) = location_href s"
  "net (clearTokens s) = net s"
  "settled (clearTokens s) = settled s"
  "tasks (clearTokens s) = tasks s"
  by (simp_all add: clearTokens_def removeItem_def)

lemma setToken_fields [simp]:
  "token (setToken a r s) = a"
  "refreshPromise (setToken a r s) = refreshPromise s"
  "location_href (setToken a r s) = location_href s"
  "net (setToken a r s) = net s"
  "settled (setToken a r s) = settled s"
  "tasks (setToken a r s) = tasks s"
  by (simp_all add: setToken_def setItem_def removeItem_def Let_def)

lemma session_expired_fields [simp]:
  "token (session_expired i s) = JNull"
  "refreshToken (session_expired i s) = JNull"
  "refreshPromise (session_expired i s) = refreshPromise s"
  "localStorage (session_expired i s) = (localStorage s)(''access_token'' := None, ''refresh_token'' := None)"
  "location_href (session_expired i s) = ''/auth''"
  "net (session_expired i s) = net s"
  "settled (session_expired i s) = settled s"
  "tasks (session_expired i s) = (tasks s)[i := (tasks s ! i)\<lparr>t_phase := Done (Threw SessionExpired)\<rparr>]"
  by (simp_all add: session_expired_def)

lemma refresh_finally_fields [simp]:
  "token (refresh_finally pid s) = token s"
  "refreshToken (refresh_finally pid s) = refreshToken s"
  "refreshPromise (refresh_finally pid s) = None"
  "localStorage (refresh_finally pid s) = localStorage s"
  "location_href (refresh_finally pid s) = location_href s"
  "net (refresh_finally pid s) = net s"
  "settled (refresh_finally pid s) = pid # settled s"
  "tasks (refresh_finally pid s) = tasks s"
  by (simp_all add: refresh_finally_def)


section \<open>The token store\<close>

text \<open>
  C3. \<open>setToken(access)\<close>, with the refresh argument left out, on a page that has the
  pair \<open>a0\<close>, \<open>r0\<close> stored: the field \<open>refreshToken\<close> keeps \<open>r0\<close>, but the default
  parameter \<open>null\<close> takes the branch \<open>refreshToken === null\<close> and the stored
  \<open>refresh_token\<close> is removed.
\<close>

theorem setToken_omitted_refresh_removes_stored:
  "localStorage (constructor stored_pair ''/'') ''refresh_token'' = Some ''r0'' \<and>
   refreshToken (setToken (JStr ''a1'') JUndefined (constructor stored_pair ''/'')) = JStr ''r0'' \<and>
   localStorage (setToken (JStr ''a1'') JUndefined (constructor stored_pair ''/''))
     ''refresh_token'' = None"
  by (simp add: setToken_def constructor_def stored_pair_def getItem_def setItem_def
      removeItem_def Let_def)

text \<open>
  In general: without a refresh argument, or with \<open>null\<close>, the field keeps its value
  and the stored entry is removed; with a truthy pair both tokens are overwritten
  in the fields and in storage.
\<close>

lemma setToken_without_refresh:
  "r = JUndefined \<or> r = JNull \<Longrightarrow>
   refreshToken (setToken a r s) = refreshToken s \<and>
   localStorage (setToken a r s) ''refresh_token'' = None"
  by (auto simp: setToken_def setItem_def removeItem_def Let_def)


section \<open>The request URL\<close>

lemma join_with_Nil: "join_with sep xs = [] \<Longrightarrow> xs = [] \<or> hd xs = []"
  by (cases "(sep, xs)" rule: join_with.cases) auto

lemma search_params_to_string_Nil_iff: "search_params_to_string ps = [] \<longleftrightarrow> ps = []"
proof
  assume "search_params_to_string ps = []"
  then have "map (\<lambda>(k, v). urlencode k @ ''='' @ urlencode v) ps = []
      \<or> hd (map (\<lambda>(k, v). urlencode k @ ''='' @ urlencode v) ps) = []"
    unfolding search_params_to_string_def by (rule join_with_Nil)
  then show "ps = []"
    by (cases ps) (auto split: prod.splits)
next
  assume "ps = []"
  then show "search_params_to_string ps = []"
    by (simp add: search_params_to_string_def)
qed

lemma net_request:
  "net (request endpoint options s) =
     net s @ [Fetch (Req (length (tasks s))) (request_url endpoint options)
                (make_config s options)]"
  by (simp add: request_def makeRequest_def Let_def set_phase_def make_config_def
      getAuthHeaders_def)

lemma upt_16: "[0..<16] = [0,1,2,3,4,5,6,7,8,9,10,11,12,13,14,15::nat]"
  by (simp add: upt_rec)

lemma hex_value_digit: "d < 16 \<Longrightarrow> hex_value (hex_digit d) = Some d"
proof -
  assume "d < 16"
  then have "d \<in> set [0..<16]" by simp
  then have "d \<in> {0,1,2,3,4,5,6,7,8,9,10,11,12,13,14,15::nat}"
    unfolding upt_16 by simp
  then show ?thesis
    unfolding hex_value_def hex_digit_def upt_16
    by (elim insertE emptyE; simp)
qed

lemma urlencode_byte_chars:
  "x \<in> set (urlencode_byte c) \<Longrightarrow> x \<noteq> CHR ''&'' \<and> x \<noteq> CHR ''=''"
proof -
  have d: "hex_digit n \<noteq> CHR ''&'' \<and> hex_digit n \<noteq> CHR ''=''" for n
  proof -
    have "n mod 16 \<in> {0,1,2,3,4,5,6,7,8,9,10,11,12,13,14,15::nat}"
      by (simp add: upt_rec) arith
    then show ?thesis
      unfolding hex_digit_def by auto
  qed
  assume "x \<in> set (urlencode_byte c)"
  then show ?thesis
    using d by (auto simp: urlencode_byte_def unreserved_def split: if_splits)
qed

lemma urlencode_chars: "x \<in> set (urlencode s) \<Longrightarrow> x \<noteq> CHR ''&'' \<and> x \<noteq> CHR ''=''"
  by (auto simp: urlencode_def dest: urlencode_byte_chars)


lemma urldecode_plain:
  "c \<noteq> CHR ''+'' \<Longrightarrow> c \<noteq> CHR ''%'' \<Longrightarrow> urldecode (c # rest) = c # urldecode rest"
  by (cases "c # rest" rule: urldecode.cases) auto

lemma urldecode_plus: "urldecode (CHR ''+'' # rest) = CHR '' '' # urldecode rest"
  by (cases "CHR ''+'' # rest" rule: urldecode.cases) auto

lemma urldecode_byte: "urldecode (urlencode_byte c @ rest) = c # urldecode rest"
proof (cases "unreserved c")
  case True
  then have "c \<noteq> CHR ''+''" "c \<noteq> CHR ''%''" by (auto simp: unreserved_def)
  with True show ?thesis by (simp add: urlencode_byte_def urldecode_plain)
next
  case False
  show ?thesis
  proof (cases "c = CHR '' ''")
    case True
    with False show ?thesis by (simp add: urlencode_byte_def urldecode_plus)
  next
    case sp: False
    have "(of_char c :: nat) mod 256 = of_char c" by (rule of_char_mod_256)
    then have "(of_char c :: nat) < 256"
      by (metis mod_less_divisor zero_less_numeral)
    then have lt: "of_char c div 16 < (16::nat)" by presburger
    have "hex_value (hex_digit (of_char c div 16)) = Some (of_char c div 16)"
      "hex_value (hex_digit (of_char c mod 16)) = Some (of_char c mod 16)"
      using lt by (simp_all add: hex_value_digit)
    with False sp show ?thesis by (simp add: urlencode_byte_def)
  qed
qed

lemma urldecode_urlencode: "urldecode (urlencode s) = s"
  by (induction s) (simp_all add: urlencode_def urldecode_byte)


lemma split_on_free: "sep \<notin> set w \<Longrightarrow> split_on sep w = [w]"
  by (induction w) auto

lemma split_on_append:
  "sep \<notin> set w \<Longrightarrow> split_on sep (w @ sep # rest) = w # split_on sep rest"
  by (induction w) auto

lemma split_on_join:
  "xs \<noteq> [] \<Longrightarrow> \<forall>x\<in>set xs. sep \<notin> set x \<Longrightarrow> split_on sep (join_with [sep] xs) = xs"
proof (induction "[sep]" xs rule: join_with.induct)
  case 1
  then show ?case by simp
next
  case (2 x)
  then show ?case by (simp add: split_on_free)
next
  case (3 x y ys)
  then show ?case by (simp add: split_on_append)
qed

lemma decode_pair_encoded: "decode_pair (urlencode k @ CHR ''='' # urlencode v) = (k, v)"
proof -
  have k: "\<And>x. x \<in> set (urlencode k) \<Longrightarrow> x \<noteq> CHR ''=''"
    using urlencode_chars by blast
  have "takeWhile (\<lambda>c. c \<noteq> CHR ''='') (urlencode k @ CHR ''='' # urlencode v) = urlencode k"
    using k by (simp add: takeWhile_append2)
  moreover have "dropWhile (\<lambda>c. c \<noteq> CHR ''='') (urlencode k @ CHR ''='' # urlencode v)
      = CHR ''='' # urlencode v"
    using k by (simp add: dropWhile_append2)
  ultimately show ?thesis
    by (simp add: decode_pair_def urldecode_urlencode)
qed

lemma decode_query_serialized: "decode_query (search_params_to_string ps) = ps"
proof (cases "ps = []")
  case True
  then show ?thesis by (simp add: decode_query_def search_params_to_string_def)
next
  case False
  let ?enc = "map (\<lambda>(k, v). urlencode k @ ''='' @ urlencode v) ps"
  have free: "\<forall>x\<in>set ?enc. CHR ''&'' \<notin> set x"
    using urlencode_chars by (auto simp: split_def)
  from False have ne: "?enc \<noteq> []" by simp
  have "split_on (CHR ''&'') (join_with ''&'' ?enc) = ?enc"
    by (rule split_on_join [OF ne free])
  moreover have "filter (\<lambda>p. p \<noteq> []) ?enc = ?enc"
    by (induction ps) auto
  moreover have "map decode_pair ?enc = ps"
    by (induction ps) (auto simp: decode_pair_encoded)
  ultimately show ?thesis
    by (simp add: decode_query_def search_params_to_string_def)
qed

text \<open>
  C10. When \<open>options.params\<close> is an object with the entries \<open>ps\<close>, the pairs
  appended to the query are those of the entries whose value is neither \<open>null\<close> nor
  \<open>undefined\<close>, in their order, each value as a string. The URL that \<open>request\<close>
  fetches is the base URL and the endpoint, followed by nothing (no \<open>?\<close>) when no
  pair was appended, and otherwise by \<open>?\<close> and the serialized pairs; read back,
  the query string gives exactly the appended pairs.
\<close>

theorem request_url_omits_null_params:
  assumes "get_own options ''params'' = JObj ps"
  shows "appended_params (JObj ps) =
           map (\<lambda>(k, v). (k, to_string v))
             (filter (\<lambda>(k, v). v \<noteq> JNull \<and> v \<noteq> JUndefined) ps) \<and>
         request_url endpoint options =
           API_BASE_URL @ endpoint @
             (if appended_params (JObj ps) = [] then []
              else ''?'' @ search_params_to_string (appended_params (JObj ps))) \<and>
         decode_query (search_params_to_string (appended_params (JObj ps)))
           = appended_params (JObj ps) \<and>
         fc_url (last (net (request endpoint options s))) = request_url endpoint options"
  using assms
  by (simp add: request_url_def Let_def appended_params_def search_params_to_string_Nil_iff
      net_request decode_query_serialized)

theorem request_url_omits_null_params_witness:
  "request_url ''/problems''
     [(''method'', JStr ''GET''),
      (''params'', JObj [(''q'', JStr ''a b''), (''n'', JNull), (''k'', JNum 3),
                         (''u'', JUndefined)])]
     = ''http://localhost:8000/api/problems?q=a+b&k=3'' \<and>
   decode_query ''q=a+b&k=3'' = [(''q'', ''a b''), (''k'', ''3'')] \<and>
   request_url ''/problems'' [(''params'', JObj [(''n'', JNull), (''u'', JUndefined)])]
     = ''http://localhost:8000/api/problems''"
proof -
  have h1: "get_own [(''method'', JStr ''GET''),
      (''params'', JObj [(''q'', JStr ''a b''), (''n'', JNull), (''k'', JNum 3),
                         (''u'', JUndefined)])] ''params''
      = JObj [(''q'', JStr ''a b''), (''n'', JNull), (''k'', JNum 3), (''u'', JUndefined)]"
    by (simp add: get_own_def)
  have h2: "get_own [(''params'', JObj [(''n'', JNull), (''u'', JUndefined)])] ''params''
      = JObj [(''n'', JNull), (''u'', JUndefined)]"
    by (simp add: get_own_def)
  have e: "search_params_to_string [(''q'', ''a b''), (''k'', ''3'')] = ''q=a+b&k=3''"
    by (simp add: search_params_to_string_def urlencode_def urlencode_byte_def unreserved_def
        hex_digit_def)
  note t1 = request_url_omits_null_params [OF h1, of "''/problems''"
      "constructor stored_pair ''/''"]
  note t2 = request_url_omits_null_params [OF h2, of "''/problems''"
      "constructor stored_pair ''/''"]
  have a1: "appended_params (JObj [(''q'', JStr ''a b''), (''n'', JNull),
      (''k'', JNum 3), (''u'', JUndefined)]) = [(''q'', ''a b''), (''k'', ''3'')]"
    unfolding t1 [THEN conjunct1]
    by (simp add: show_int_def show_nat.simps digit_char_def)
  have a2: "appended_params (JObj [(''n'', JNull), (''u'', JUndefined)]) = []"
    unfolding t2 [THEN conjunct1] by simp
  have "request_url ''/problems''
     [(''method'', JStr ''GET''),
      (''params'', JObj [(''q'', JStr ''a b''), (''n'', JNull), (''k'', JNum 3),
                         (''u'', JUndefined)])]
     = ''http://localhost:8000/api/problems?q=a+b&k=3''"
    unfolding t1 [THEN conjunct2, THEN conjunct1] a1 e by (simp add: API_BASE_URL_def)
  moreover have "decode_query ''q=a+b&k=3'' = [(''q'', ''a b''), (''k'', ''3'')]"
    using t1 [THEN conjunct2, THEN conjunct2, THEN conjunct1] unfolding a1 e .
  moreover have "request_url ''/problems''
      [(''params'', JObj [(''n'', JNull), (''u'', JUndefined)])]
     = ''http://localhost:8000/api/problems''"
    unfolding t2 [THEN conjunct2, THEN conjunct1] a2 by (simp add: API_BASE_URL_def)
  ultimately show ?thesis by simp
qed

section \<open>The config of a request\<close>

text \<open>
  The spread assigns the properties of \<open>options\<close> after \<open>headers\<close>, so a later property
  of the same name wins.
\<close>

lemma map_of_spread: "map_of (spread base src) = map_of base ++ map_of (rev src)"
  unfolding spread_def
proof (induction src arbitrary: base)
  case Nil
  then show ?case by simp
next
  case (Cons p src)
  obtain k v where p: "p = (k, v)" by (cases p)
  have "map_of (fold (\<lambda>(k, v). AList.update k v) (p # src) base)
      = map_of (AList.update k v base) ++ map_of (rev src)"
    using Cons.IH [of "AList.update k v base"] by (simp add: p)
  also have "\<dots> = map_of base ++ map_of (rev (p # src))"
    by (simp add: p update_conv' map_add_upd_left fun_eq_iff map_add_def split: option.splits)
  finally show ?case .
qed

lemma map_of_rev_None: "map_of xs k = None \<Longrightarrow> map_of (rev xs) k = None"
  by (simp add: map_of_eq_None_iff)

lemma headers_of_make_config:
  "map_of options ''headers'' = None \<Longrightarrow>
   get_own (make_config s options) ''headers'' = JObj (getAuthHeaders s)"
  using map_of_rev_None [of options "''headers''"]
  by (simp add: make_config_def get_own_def map_of_spread map_add_def)

lemma map_of_rev_distinct: "distinct (map fst xs) \<Longrightarrow> map_of (rev xs) = map_of xs"
  by (rule map_of_inject_set[THEN iffD2]) (auto simp: rev_map[symmetric])

lemma headers_of_make_config_override:
  "distinct (map fst options) \<Longrightarrow> map_of options ''headers'' = Some h \<Longrightarrow>
   get_own (make_config s options) ''headers'' = h"
  by (simp add: make_config_def get_own_def map_of_spread map_add_def map_of_rev_distinct)

lemma header_of_getAuthHeaders:
  "get_own (getAuthHeaders s) ''Content-Type'' = JStr ''application/json''"
  "get_own (getAuthHeaders s) ''Authorization'' =
     (if truthy (token s) then JStr (''Bearer '' @ to_string (token s)) else JUndefined)"
  by (simp_all add: getAuthHeaders_def get_own_def Let_def)

lemma net_makeRequest:
  "net (makeRequest i retryCount s) =
     net s @ [Fetch (Req i) (t_url (tasks s ! i)) (make_config s (t_options (tasks s ! i)))]"
  by (simp add: makeRequest_def Let_def set_phase_def)

text \<open>
  C8 (as amended). A request whose options have no \<open>headers\<close> of their own is
  dispatched, by \<open>request\<close> and again by a retry, with the headers that
  \<open>getAuthHeaders\<close> builds: the JSON content type always, and
  \<open>Authorization: Bearer <token>\<close> exactly when the token field is truthy. When the
  options have \<open>headers\<close>, the spread puts them in the place of the built ones.
\<close>

theorem dispatched_headers:
  "(map_of options ''headers'' = None \<longrightarrow>
      fc_init (last (net (request endpoint options s))) = make_config s options \<and>
      header_of (make_config s options) ''Content-Type'' = JStr ''application/json'' \<and>
      header_of (make_config s options) ''Authorization'' =
        (if truthy (token s) then JStr (''Bearer '' @ to_string (token s)) else JUndefined)) \<and>
   fc_init (last (net (makeRequest i retryCount s))) = make_config s (t_options (tasks s ! i)) \<and>
   (distinct (map fst options) \<and> map_of options ''headers'' = Some h \<longrightarrow>
      get_own (make_config s options) ''headers'' = h)"
  by (simp add: header_of_def headers_of_make_config header_of_getAuthHeaders net_request
      net_makeRequest headers_of_make_config_override)

theorem dispatched_headers_witness:
  "header_of (fc_init (last (net (request ''/auth/me'' [(''method'', JStr ''GET'')]
      (constructor stored_pair ''/''))))) ''Content-Type'' = JStr ''application/json'' \<and>
   header_of (fc_init (last (net (request ''/auth/me'' [(''method'', JStr ''GET'')]
      (constructor stored_pair ''/''))))) ''Authorization'' = JStr ''Bearer a0'' \<and>
   header_of (fc_init (last (net (request ''/auth/login/json'' [(''method'', JStr ''POST'')]
      (constructor Map.empty ''/''))))) ''Authorization'' = JUndefined \<and>
   get_own (make_config (constructor stored_pair ''/'')
      [(''headers'', JObj [(''X-Trace'', JStr ''1'')])]) ''headers''
     = JObj [(''X-Trace'', JStr ''1'')]"
proof -
  have h: "map_of [(''method'', JStr ''GET'')] ''headers'' = None"
    "map_of [(''method'', JStr ''POST'')] ''headers'' = None"
    "distinct (map fst [(''headers'', JObj [(''X-Trace'', JStr ''1'')])])"
    "map_of [(''headers'', JObj [(''X-Trace'', JStr ''1'')])] ''headers''
       = Some (JObj [(''X-Trace'', JStr ''1'')])"
    by simp_all
  show ?thesis
    using h
      dispatched_headers [of "[(''method'', JStr ''GET'')]" "''/auth/me''"
        "constructor stored_pair ''/''" 0 0 JNull]
      dispatched_headers [of "[(''method'', JStr ''POST'')]" "''/auth/login/json''"
        "constructor Map.empty ''/''" 0 0 JNull]
      dispatched_headers [of "[(''headers'', JObj [(''X-Trace'', JStr ''1'')])]" "''/p''"
        "constructor stored_pair ''/''" 0 0 "JObj [(''X-Trace'', JStr ''1'')]"]
    by (simp add: constructor_def stored_pair_def getItem_def Let_def)
qed

text \<open>
  The claim as stated fails: with a token stored, a request whose options carry
  their own \<open>headers\<close> is dispatched without the content type and without
  \<open>Authorization\<close>.
\<close>

theorem dispatched_headers_counterexample:
  "token (constructor stored_pair ''/'') = JStr ''a0'' \<and>
   header_of (fc_init (last (net (request ''/problems''
      [(''headers'', JObj [(''X-Trace'', JStr ''1'')])] (constructor stored_pair ''/'')))))
      ''Content-Type'' = JUndefined \<and>
   header_of (fc_init (last (net (request ''/problems''
      [(''headers'', JObj [(''X-Trace'', JStr ''1'')])] (constructor stored_pair ''/'')))))
      ''Authorization'' = JUndefined"
  by (simp add: net_request make_config_def spread_def header_of_def get_own_def
      constructor_def stored_pair_def getItem_def Let_def)

text \<open>Two configs built from the same options differ in the \<open>Authorization\<close> header only.\<close>

lemma wa_update:
  "map fst b = map fst b' \<Longrightarrow> AList.map_ran f b = AList.map_ran f b' \<Longrightarrow>
   map fst (AList.update k v b) = map fst (AList.update k v b') \<and>
   AList.map_ran f (AList.update k v b) = AList.map_ran f (AList.update k v b')"
proof (induction b arbitrary: b')
  case Nil
  then show ?case by simp
next
  case (Cons p b)
  then obtain p' b'' where b': "b' = p' # b''" by (cases b') auto
  with Cons.prems have "fst p = fst p'" "map fst b = map fst b''"
    "AList.map_ran f b = AList.map_ran f b''"
    by (auto simp: map_ran_Cons_sel)
  with Cons.IH[of b''] Cons.prems show ?case
    by (auto simp: b' map_ran_Cons_sel)
qed

lemma wa_spread:
  "map fst b = map fst b' \<Longrightarrow> AList.map_ran f b = AList.map_ran f b' \<Longrightarrow>
   map fst (spread b src) = map fst (spread b' src) \<and>
   AList.map_ran f (spread b src) = AList.map_ran f (spread b' src)"
  unfolding spread_def
proof (induction src arbitrary: b b')
  case Nil
  then show ?case by simp
next
  case (Cons p src)
  obtain k v where p: "p = (k, v)" by (cases p)
  from wa_update[OF Cons.prems, of k v] Cons.IH[of "AList.update k v b" "AList.update k v b'"]
  show ?case by (simp add: p)
qed

lemma map_ran_delete: "AList.map_ran f (AList.delete k b) = AList.delete k (AList.map_ran f b)"
  by (induction b) (auto simp: map_ran_Cons_sel)

lemma wa_make_config:
  "without_authorization (make_config s options) = without_authorization (make_config s' options)"
proof -
  let ?f = "\<lambda>k v. if k = ''headers'' then strip_authorization v else v"
  have "AList.map_ran ?f [(''headers'', JObj (getAuthHeaders s))]
      = AList.map_ran ?f [(''headers'', JObj (getAuthHeaders s'))]"
    by (simp add: getAuthHeaders_def Let_def)
  from wa_spread[OF _ this, of options] show ?thesis
    by (simp add: make_config_def without_authorization_def map_ran_delete)
qed


section \<open>The caller's options object\<close>















section \<open>Requests waiting on the refresh\<close>

text \<open>One waiter, then all of them.\<close>

lemma resume_length [simp]: "length (tasks (resume pid r j s)) = length (tasks s)"
  by (simp add: resume_def split: sum.splits)

lemma resume_other:
  "i \<noteq> j \<Longrightarrow> tasks (resume pid r j s) ! i = tasks s ! i"
  by (simp add: resume_def split: sum.splits)

lemma fold_resume_length [simp]: "length (tasks (fold (resume pid r) js s)) = length (tasks s)"
  by (induction js arbitrary: s) simp_all

lemma fold_resume_notin:
  "i \<notin> set js \<Longrightarrow> tasks (fold (resume pid r) js s) ! i = tasks s ! i"
  by (induction js arbitrary: s) (simp_all add: resume_other)

lemma resume_refreshPromise [simp]:
  "refreshPromise (resume pid r j s) = refreshPromise s"
  "settled (resume pid r j s) = settled s"
  by (simp_all add: resume_def split: sum.splits)

lemma fold_resume_refreshPromise [simp]:
  "refreshPromise (fold (resume pid r) js s) = refreshPromise s"
  "settled (fold (resume pid r) js s) = settled s"
  by (induction js arbitrary: s) simp_all

text \<open>When the promise is fulfilled.\<close>

lemma resume_ok_fields [simp]:
  "token (resume pid (Inr d) j s) = token s"
  "refreshToken (resume pid (Inr d) j s) = refreshToken s"
  "localStorage (resume pid (Inr d) j s) = localStorage s"
  "location_href (resume pid (Inr d) j s) = location_href s"
  by (simp_all add: resume_def)

lemma fold_resume_ok_fields [simp]:
  "token (fold (resume pid (Inr d)) js s) = token s"
  "refreshToken (fold (resume pid (Inr d)) js s) = refreshToken s"
  "localStorage (fold (resume pid (Inr d)) js s) = localStorage s"
  "location_href (fold (resume pid (Inr d)) js s) = location_href s"
  by (induction js arbitrary: s) simp_all

lemma fold_resume_ok_net:
  "distinct js \<Longrightarrow> \<forall>j\<in>set js. j < length (tasks s) \<Longrightarrow>
   net (fold (resume pid (Inr d)) js s) =
     net s @ map (\<lambda>j. Fetch (Req j) (t_url (tasks s ! j)) (make_config s (t_options (tasks s ! j))))
               (filter (\<lambda>j. t_phase (tasks s ! j) = AwaitRefresh pid) js)"
proof (induction js arbitrary: s)
  case Nil
  then show ?case by simp
next
  case (Cons j js)
  let ?s1 = "resume pid (Inr d) j s"
  have same: "\<forall>i\<in>set js. tasks ?s1 ! i = tasks s ! i"
    using Cons.prems(1) by (auto intro!: resume_other)
  have cfg: "make_config ?s1 = make_config s"
    by (rule ext) (rule make_config_token, simp)
  have "net (fold (resume pid (Inr d)) js ?s1) =
     net ?s1 @ map (\<lambda>j. Fetch (Req j) (t_url (tasks ?s1 ! j)) (make_config ?s1 (t_options (tasks ?s1 ! j))))
               (filter (\<lambda>j. t_phase (tasks ?s1 ! j) = AwaitRefresh pid) js)"
    using Cons.prems by (intro Cons.IH) auto
  also have "map (\<lambda>j. Fetch (Req j) (t_url (tasks ?s1 ! j)) (make_config ?s1 (t_options (tasks ?s1 ! j))))
               (filter (\<lambda>j. t_phase (tasks ?s1 ! j) = AwaitRefresh pid) js)
     = map (\<lambda>j. Fetch (Req j) (t_url (tasks s ! j)) (make_config s (t_options (tasks s ! j))))
               (filter (\<lambda>j. t_phase (tasks s ! j) = AwaitRefresh pid) js)"
    using same by (auto simp: cfg intro!: map_cong filter_cong)
  also have "net ?s1 = net s @ (if t_phase (tasks s ! j) = AwaitRefresh pid
      then [Fetch (Req j) (t_url (tasks s ! j)) (make_config s (t_options (tasks s ! j)))] else [])"
    by (simp add: resume_def makeRequest_def Let_def)
  finally show ?case by simp
qed



text \<open>When the promise is rejected.\<close>

lemma resume_err_net [simp]: "net (resume pid (Inl e) j s) = net s"
  by (simp add: resume_def)

lemma fold_resume_err_net [simp]: "net (fold (resume pid (Inl e)) js s) = net s"
  by (induction js arbitrary: s) simp_all

lemma resume_err_cleared: "session_cleared s \<Longrightarrow> session_cleared (resume pid (Inl e) j s)"
  by (simp add: resume_def session_cleared_def)

lemma fold_resume_err_cleared: "session_cleared s \<Longrightarrow> session_cleared (fold (resume pid (Inl e)) js s)"
  by (induction js arbitrary: s) (simp_all add: resume_err_cleared)

lemma fold_resume_err_waiter_cleared:
  "j \<in> set js \<Longrightarrow> t_phase (tasks s ! j) = AwaitRefresh pid \<Longrightarrow>
   session_cleared (fold (resume pid (Inl e)) js s)"
proof (induction js arbitrary: s)
  case Nil
  then show ?case by simp
next
  case (Cons a js)
  show ?case
  proof (cases "a = j")
    case True
    with Cons.prems have "session_cleared (resume pid (Inl e) a s)"
      by (simp add: resume_def session_cleared_def)
    then show ?thesis by (simp add: fold_resume_err_cleared)
  next
    case False
    with Cons.prems have "j \<in> set js" "t_phase (tasks (resume pid (Inl e) a s) ! j) = AwaitRefresh pid"
      by (simp_all add: resume_other)
    then show ?thesis using Cons.IH by simp
  qed
qed

lemma fold_resume_err_phase:
  "i < length (tasks s) \<Longrightarrow>
   tasks (fold (resume pid (Inl e)) js s) ! i =
     (if i \<in> set js \<and> t_phase (tasks s ! i) = AwaitRefresh pid
      then (tasks s ! i)\<lparr>t_phase := Done (Threw SessionExpired)\<rparr> else tasks s ! i)"
proof (induction js arbitrary: s)
  case Nil
  then show ?case by simp
next
  case (Cons j js)
  let ?s1 = "resume pid (Inl e) j s"
  from Cons.prems have i: "i < length (tasks ?s1)" by simp
  show ?case
  proof (cases "i = j")
    case True
    then show ?thesis
      using Cons.IH [OF i] Cons.prems
      by (auto simp: resume_def)
  next
    case False
    then show ?thesis
      using Cons.IH [OF i] by (simp add: resume_other)
  qed
qed

lemma refresh_chain_tasks:
  "refresh_chain rv s = Some (pid, r, s1) \<Longrightarrow> tasks s1 = tasks s \<and> net s1 = net s"
  by (auto simp: refresh_chain_def refresh_then_def split: option.splits prod.splits refresh_phase.splits
      refresh_event.splits if_splits sum.splits)

lemma refresh_chain_failure:
  "refresh_chain rv s = Some (pid, Some (Inl e), s1) \<Longrightarrow>
   token s1 = token s \<and> refreshToken s1 = refreshToken s \<and> localStorage s1 = localStorage s \<and>
   location_href s1 = location_href s \<and> refreshPromise s1 = None"
  by (auto simp: refresh_chain_def refresh_then_def split: option.splits prod.splits refresh_phase.splits
      refresh_event.splits if_splits sum.splits)

lemma step_refresh_failure:
  assumes "refresh_chain rv s = Some (pid, Some (Inl e), s1)"
    and "i < length (tasks s)" and "t_phase (tasks s ! i) = AwaitRefresh pid"
  shows "\<exists>s'. step (RefreshEv rv) s = Some s' \<and>
           t_phase (tasks s' ! i) = Done (Threw SessionExpired) \<and>
           token s' = JNull \<and> refreshToken s' = JNull \<and>
           localStorage s' ''access_token'' = None \<and> localStorage s' ''refresh_token'' = None \<and>
           location_href s' = ''/auth'' \<and> refreshPromise s' = None \<and>
           net s' = net s"
proof -
  from refresh_chain_tasks [OF assms(1)] have t: "tasks s1 = tasks s" "net s1 = net s" by simp_all
  have st: "step (RefreshEv rv) s = Some (resume_all pid (Inl e) s1)"
    using assms(1) by (simp add: step_def)
  have i: "i \<in> set [0..<length (tasks s1)]" "i < length (tasks s1)"
    "t_phase (tasks s1 ! i) = AwaitRefresh pid"
    using assms t by simp_all
  have c: "session_cleared (resume_all pid (Inl e) s1)"
    unfolding resume_all_def by (rule fold_resume_err_waiter_cleared [OF i(1) i(3)])
  have p: "t_phase (tasks (resume_all pid (Inl e) s1) ! i) = Done (Threw SessionExpired)"
    unfolding resume_all_def using i by (simp add: fold_resume_err_phase)
  show ?thesis
    using st c p refresh_chain_failure [OF assms(1)] t
    by (simp add: session_cleared_def resume_all_def)
qed


section \<open>Single steps\<close>

text \<open>What one event does to the request it concerns.\<close>

lemma response_error_not_expired: "response_error resp \<noteq> SessionExpired"
  by (auto simp: response_error_def SessionExpired_def Let_def split: sum.splits option.splits
      elim!: get_member.elims)

lemma response_error_shape:
  "(case response_error resp of
      HttpError m st d \<Rightarrow> st = status resp \<and> d = (case body resp of Some v \<Rightarrow> v | None \<Rightarrow> JObj [])
    | TypeError \<Rightarrow> body resp = Some JNull \<or> body resp = Some JUndefined
    | _ \<Rightarrow> False)"
  by (auto simp: response_error_def Let_def split: sum.splits option.splits
      elim!: get_member.elims)

lemma step_401_unrecoverable:
  assumes "i < length (tasks s)" and "t_phase (tasks s ! i) = AwaitFetch retryCount"
    and "status resp = 401" and "retryCount \<noteq> 0 \<or> \<not> truthy (refreshToken s)"
  shows "step (FetchResolves i resp) s = Some (set_phase i (Done (Threw (response_error resp))) s)"
  using assms by (auto simp: step_def on_response_def ok_def)

lemma step_error_response:
  assumes "i < length (tasks s)" and "t_phase (tasks s ! i) = AwaitFetch retryCount"
    and "\<not> ok resp" and "status resp \<noteq> 401"
  shows "step (FetchResolves i resp) s = Some (set_phase i (Done (Threw (response_error resp))) s)"
  using assms by (auto simp: step_def on_response_def)

lemma refreshAccessToken_tokens:
  "token (snd (refreshAccessToken s)) = token s \<and>
   refreshToken (snd (refreshAccessToken s)) = refreshToken s \<and>
   localStorage (snd (refreshAccessToken s)) = localStorage s"
  by (simp add: refreshAccessToken_def Let_def split: option.splits prod.splits)

lemma refreshAccessToken_fresh:
  "truthy (refreshToken s) \<Longrightarrow> refreshPromise s = None \<Longrightarrow>
   refreshAccessToken s =
     (Inr (length (net s)),
      s\<lparr>refreshPromise := Some (length (net s), RFetch),
        net := net s @ [Fetch (Refresh (length (net s))) (API_BASE_URL @ ''/auth/refresh'')
                          (refresh_init s)]\<rparr>)"
  by (simp add: refreshAccessToken_def Let_def)


lemma refreshAccessToken_none:
  "\<not> truthy (refreshToken s) \<Longrightarrow> refreshAccessToken s = (Inl NoRefreshToken, s)"
  by (simp add: refreshAccessToken_def)






section \<open>Responses that end a request\<close>

text \<open>
  C7. A response with status 500 whose body is the JSON literal \<open>null\<close>: \<open>json()\<close>
  resolves with \<open>null\<close>, the fallback \<open>{}\<close> of the \<open>catch\<close> is not taken, and reading
  \<open>errorData.detail\<close> throws. The call fails with a \<open>TypeError\<close> that carries neither
  the status nor the payload.
\<close>

theorem null_error_body_throws_TypeError:
  "run [Call ''/problems'' [(''method'', JStr ''POST'')], FetchResolves 0 null_error_response]
     (constructor stored_pair ''/'') \<noteq> None \<and>
   t_phase (tasks (the
     (run [Call ''/problems'' [(''method'', JStr ''POST'')], FetchResolves 0 null_error_response]
        (constructor stored_pair ''/''))) ! 0)
   = Done (Threw TypeError)"
  by (simp add: eval_defs stored_pair_def null_error_response_def)

text \<open>
  For every other body the error of a response that is not ok carries the status
  and the parsed body, or \<open>{}\<close> when the body is not JSON.
\<close>

lemma error_response_carries_payload:
  assumes "i < length (tasks s)" and "t_phase (tasks s ! i) = AwaitFetch retryCount"
    and "\<not> ok resp" and "status resp \<noteq> 401"
    and "body resp \<noteq> Some JNull" and "body resp \<noteq> Some JUndefined"
  shows "\<exists>message. step (FetchResolves i resp) s =
           Some (set_phase i (Done (Threw (HttpError message (status resp)
             (case body resp of Some v \<Rightarrow> v | None \<Rightarrow> JObj [])))) s)"
proof -
  from response_error_shape [of resp] assms(5,6)
  obtain m where "response_error resp =
      HttpError m (status resp) (case body resp of Some v \<Rightarrow> v | None \<Rightarrow> JObj [])"
    by (cases "response_error resp") auto
  with step_error_response [OF assms(1-4)] show ?thesis by auto
qed

text \<open>
  C1 (as amended). When the refresh promise is rejected, every request waiting on
  it ends with the error \<open>Session expired\<close>, with both tokens cleared from the fields
  and from storage and the page sent to \<open>/auth\<close>. When a 401 arrives on the retried
  request, or on a first attempt with no refresh token in the field, no network
  call is made, the tokens stay as they are, and the request ends with the error
  of a failed response, which is not the \<open>Session expired\<close> error.
\<close>

theorem unrecoverable_expiry:
  "(refresh_chain rv s = Some (pid, Some (Inl e), s1) \<and> i < length (tasks s) \<and>
    t_phase (tasks s ! i) = AwaitRefresh pid \<longrightarrow>
      (\<exists>s'. step (RefreshEv rv) s = Some s' \<and>
            t_phase (tasks s' ! i) = Done (Threw SessionExpired) \<and>
            session_cleared s' \<and> net s' = net s)) \<and>
   (i < length (tasks s) \<and> t_phase (tasks s ! i) = AwaitFetch retryCount \<and>
    status resp = 401 \<and> (retryCount \<noteq> 0 \<or> \<not> truthy (refreshToken s)) \<longrightarrow>
      (\<exists>s'. step (FetchResolves i resp) s = Some s' \<and>
            t_phase (tasks s' ! i) = Done (Threw (response_error resp)) \<and>
            response_error resp \<noteq> SessionExpired \<and>
            net s' = net s \<and> token s' = token s \<and> refreshToken s' = refreshToken s \<and>
            localStorage s' = localStorage s \<and> location_href s' = location_href s))"
proof (intro conjI impI)
  assume "refresh_chain rv s = Some (pid, Some (Inl e), s1) \<and> i < length (tasks s) \<and>
    t_phase (tasks s ! i) = AwaitRefresh pid"
  then show "\<exists>s'. step (RefreshEv rv) s = Some s' \<and>
            t_phase (tasks s' ! i) = Done (Threw SessionExpired) \<and>
            session_cleared s' \<and> net s' = net s"
    using step_refresh_failure [of rv s pid e s1 i] by (auto simp: session_cleared_def)
next
  assume "i < length (tasks s) \<and> t_phase (tasks s ! i) = AwaitFetch retryCount \<and>
    status resp = 401 \<and> (retryCount \<noteq> 0 \<or> \<not> truthy (refreshToken s))"
  then show "\<exists>s'. step (FetchResolves i resp) s = Some s' \<and>
            t_phase (tasks s' ! i) = Done (Threw (response_error resp)) \<and>
            response_error resp \<noteq> SessionExpired \<and>
            net s' = net s \<and> token s' = token s \<and> refreshToken s' = refreshToken s \<and>
            localStorage s' = localStorage s \<and> location_href s' = location_href s"
    using step_401_unrecoverable [of i s retryCount resp]
    by (simp add: response_error_not_expired)
qed

lemma waiting_state_fields:
  "length (tasks waiting_state) = 1"
  "t_phase (tasks waiting_state ! 0) = AwaitRefresh 1"
  "refreshPromise waiting_state = Some (1, RFetch)"
  "token waiting_state = JStr ''a0''"
  "refreshToken waiting_state = JStr ''r0''"
  by (simp_all add: waiting_state_def eval_defs stored_pair_def expired_response_def)

theorem unrecoverable_expiry_witness:
  "(\<exists>s'. step (RefreshEv (RefreshResolves expired_response)) waiting_state = Some s' \<and>
         t_phase (tasks s' ! 0) = Done (Threw SessionExpired) \<and> session_cleared s') \<and>
   (\<exists>s'. step (FetchResolves 0 expired_response)
            (request ''/problems'' [] (constructor stored_access ''/'')) = Some s' \<and>
         t_phase (tasks s' ! 0) = Done (Threw (response_error expired_response)) \<and>
         token s' = JStr ''a0'')"
proof -
  have a: "refresh_chain (RefreshResolves expired_response) waiting_state
      = Some (1, Some (Inl RefreshFailed), refresh_finally 1 waiting_state)"
    by (simp add: refresh_chain_def waiting_state_fields ok_def expired_response_def)
  have b: "length (tasks (request ''/problems'' [] (constructor stored_access ''/''))) = 1"
    "t_phase (tasks (request ''/problems'' [] (constructor stored_access ''/'')) ! 0) = AwaitFetch 0"
    "refreshToken (request ''/problems'' [] (constructor stored_access ''/'')) = JNull"
    "token (request ''/problems'' [] (constructor stored_access ''/'')) = JStr ''a0''"
    "status expired_response = 401"
    by (simp_all add: eval_defs stored_access_def expired_response_def)
  show ?thesis
    using unrecoverable_expiry [of "RefreshResolves expired_response" waiting_state 1
        RefreshFailed "refresh_finally 1 waiting_state" 0 0 expired_response]
      unrecoverable_expiry [of "RefreshResolves expired_response"
        "request ''/problems'' [] (constructor stored_access ''/'')" 1
        RefreshFailed "refresh_finally 1 waiting_state" 0 0 expired_response]
      a b waiting_state_fields
    by auto
qed

text \<open>
  The claim as stated fails in two of its three cases. With only an access token
  stored, a 401 ends the request with the error of the response, and the token
  stays in the field and in storage. With both tokens stored, a 401 on the retry
  after a successful refresh ends the request in the same way, and the new tokens
  stay.
\<close>

theorem unrecoverable_expiry_counterexample:
  "run [Call ''/problems'' [], FetchResolves 0 expired_response]
     (constructor stored_access ''/'') \<noteq> None \<and>
   t_phase (tasks (the (run [Call ''/problems'' [], FetchResolves 0 expired_response]
     (constructor stored_access ''/''))) ! 0)
     = Done (Threw (HttpError ''Could not validate credentials'' 401
         (JObj [(''detail'', JStr ''Could not validate credentials'')]))) \<and>
   token (the (run [Call ''/problems'' [], FetchResolves 0 expired_response]
     (constructor stored_access ''/''))) = JStr ''a0'' \<and>
   localStorage (the (run [Call ''/problems'' [], FetchResolves 0 expired_response]
     (constructor stored_access ''/''))) ''access_token'' = Some ''a0'' \<and>
   run (retry_events @ [FetchResolves 0 expired_response])
     (constructor stored_pair ''/'') \<noteq> None \<and>
   t_phase (tasks (the (run (retry_events @ [FetchResolves 0 expired_response])
     (constructor stored_pair ''/''))) ! 0)
     = Done (Threw (HttpError ''Could not validate credentials'' 401
         (JObj [(''detail'', JStr ''Could not validate credentials'')]))) \<and>
   token (the (run (retry_events @ [FetchResolves 0 expired_response])
     (constructor stored_pair ''/''))) = JStr ''a1'' \<and>
   refreshToken (the (run (retry_events @ [FetchResolves 0 expired_response])
     (constructor stored_pair ''/''))) = JStr ''r1'' \<and>
   localStorage (the (run (retry_events @ [FetchResolves 0 expired_response])
     (constructor stored_pair ''/''))) ''refresh_token'' = Some ''r1''"
  by (simp add: retry_events_def eval_defs stored_pair_def stored_access_def
      expired_response_def new_pair_response_def)

section \<open>The refresh promise\<close>

text \<open>
  C5. \<open>refreshAccessToken\<close> throws \<open>No refresh token available\<close> when the field
  \<open>refreshToken\<close> is not truthy, and changes nothing then. Its synchronous part
  never writes a token, nor does the chain while the promise is pending. However
  the promise chain fails (the response is not ok, the \<open>fetch\<close> rejects, the body
  cannot be read), the chain itself leaves both tokens and the storage as they
  were, and its \<open>finally\<close> handler sets \<open>refreshPromise\<close> back to \<open>null\<close>; a later call with a refresh token in
  the field then issues a new refresh call with a new promise.
\<close>

theorem refresh_failure_keeps_tokens:
  "(\<not> truthy (refreshToken s) \<longrightarrow> refreshAccessToken s = (Inl NoRefreshToken, s)) \<and>
   token (snd (refreshAccessToken s)) = token s \<and>
   refreshToken (snd (refreshAccessToken s)) = refreshToken s \<and>
   localStorage (snd (refreshAccessToken s)) = localStorage s \<and>
   (refresh_chain rv s = Some (pid, None, s1) \<longrightarrow>
      token s1 = token s \<and> refreshToken s1 = refreshToken s \<and>
      localStorage s1 = localStorage s) \<and>
   (refresh_chain rv s = Some (pid, Some (Inl e), s1) \<longrightarrow>
      token s1 = token s \<and> refreshToken s1 = refreshToken s \<and>
      localStorage s1 = localStorage s \<and> refreshPromise s1 = None \<and>
      (truthy (refreshToken s1) \<longrightarrow>
         fst (refreshAccessToken s1) = Inr (length (net s1)) \<and>
         refreshPromise (snd (refreshAccessToken s1)) = Some (length (net s1), RFetch) \<and>
         net (snd (refreshAccessToken s1)) =
           net s1 @ [Fetch (Refresh (length (net s1))) (API_BASE_URL @ ''/auth/refresh'')
                       (refresh_init s1)])) \<and>
   (refreshPromise s = Some (pid, RFetch) \<and> \<not> ok resp \<longrightarrow>
      refresh_chain (RefreshResolves resp) s
        = Some (pid, Some (Inl RefreshFailed), refresh_finally pid s)) \<and>
   (refreshPromise s = Some (pid, RFetch) \<longrightarrow>
      refresh_chain RefreshRejects s = Some (pid, Some (Inl FetchFailed), refresh_finally pid s)) \<and>
   (refreshPromise s = Some (pid, RBody resp) \<and> body resp = None \<longrightarrow>
      refresh_chain RefreshBodyRead s = Some (pid, Some (Inl SyntaxError), refresh_finally pid s))"
proof (intro conjI impI)
  assume "\<not> truthy (refreshToken s)"
  then show "refreshAccessToken s = (Inl NoRefreshToken, s)"
    by (rule refreshAccessToken_none)
next
  show "token (snd (refreshAccessToken s)) = token s"
    "refreshToken (snd (refreshAccessToken s)) = refreshToken s"
    "localStorage (snd (refreshAccessToken s)) = localStorage s"
    using refreshAccessToken_tokens [of s] by simp_all
next
  assume "refresh_chain rv s = Some (pid, None, s1)"
  then have "\<exists>resp. s1 = s\<lparr>refreshPromise := Some (pid, RBody resp)\<rparr>"
    by (auto simp: refresh_chain_def split: option.splits prod.splits refresh_phase.splits
        refresh_event.splits if_splits)
  then show "token s1 = token s" "refreshToken s1 = refreshToken s"
    "localStorage s1 = localStorage s"
    by auto
next
  assume c: "refresh_chain rv s = Some (pid, Some (Inl e), s1)"
  note f = refresh_chain_failure [OF c]
  from f show "token s1 = token s" "refreshToken s1 = refreshToken s"
    "localStorage s1 = localStorage s" "refreshPromise s1 = None"
    by simp_all
  assume "truthy (refreshToken s1)"
  with f have r: "refreshAccessToken s1 =
     (Inr (length (net s1)),
      s1\<lparr>refreshPromise := Some (length (net s1), RFetch),
        net := net s1 @ [Fetch (Refresh (length (net s1))) (API_BASE_URL @ ''/auth/refresh'')
                          (refresh_init s1)]\<rparr>)"
    by (intro refreshAccessToken_fresh) simp_all
  show "fst (refreshAccessToken s1) = Inr (length (net s1))"
    "refreshPromise (snd (refreshAccessToken s1)) = Some (length (net s1), RFetch)"
    "net (snd (refreshAccessToken s1)) =
           net s1 @ [Fetch (Refresh (length (net s1))) (API_BASE_URL @ ''/auth/refresh'')
                       (refresh_init s1)]"
    by (simp_all add: r)
next
  assume "refreshPromise s = Some (pid, RFetch) \<and> \<not> ok resp"
  then show "refresh_chain (RefreshResolves resp) s
        = Some (pid, Some (Inl RefreshFailed), refresh_finally pid s)"
    by (simp add: refresh_chain_def)
next
  assume "refreshPromise s = Some (pid, RFetch)"
  then show "refresh_chain RefreshRejects s
        = Some (pid, Some (Inl FetchFailed), refresh_finally pid s)"
    by (simp add: refresh_chain_def)
next
  assume "refreshPromise s = Some (pid, RBody resp) \<and> body resp = None"
  then show "refresh_chain RefreshBodyRead s
        = Some (pid, Some (Inl SyntaxError), refresh_finally pid s)"
    by (simp add: refresh_chain_def refresh_then_def)
qed

theorem refresh_failure_keeps_tokens_witness:
  "refreshAccessToken (constructor stored_access ''/'')
     = (Inl NoRefreshToken, constructor stored_access ''/'') \<and>
   refresh_chain (RefreshResolves expired_response) waiting_state
     = Some (1, Some (Inl RefreshFailed), refresh_finally 1 waiting_state) \<and>
   token (refresh_finally 1 waiting_state) = JStr ''a0'' \<and>
   refreshToken (refresh_finally 1 waiting_state) = JStr ''r0'' \<and>
   localStorage (refresh_finally 1 waiting_state) ''refresh_token'' = Some ''r0'' \<and>
   refreshPromise (refresh_finally 1 waiting_state) = None \<and>
   fst (refreshAccessToken (refresh_finally 1 waiting_state)) = Inr 2"
proof -
  have a: "\<not> truthy (refreshToken (constructor stored_access ''/''))"
    by (simp add: constructor_def stored_access_def getItem_def Let_def)
  have b: "\<not> ok expired_response"
    by (simp add: ok_def expired_response_def)
  have c: "localStorage waiting_state ''refresh_token'' = Some ''r0''"
    "length (net waiting_state) = 2"
    by (simp_all add: waiting_state_def eval_defs stored_pair_def expired_response_def)
  note t = refresh_failure_keeps_tokens [where s = "constructor stored_access ''/''"]
  note u = refresh_failure_keeps_tokens [where s = waiting_state
      and rv = "RefreshResolves expired_response" and pid = 1 and e = RefreshFailed
      and ?s1.0 = "refresh_finally 1 waiting_state" and resp = expired_response]
  from u b have ch: "refresh_chain (RefreshResolves expired_response) waiting_state
     = Some (1, Some (Inl RefreshFailed), refresh_finally 1 waiting_state)"
    by (simp add: waiting_state_fields)
  with u have "token (refresh_finally 1 waiting_state) = token waiting_state"
    "refreshToken (refresh_finally 1 waiting_state) = refreshToken waiting_state"
    "localStorage (refresh_finally 1 waiting_state) = localStorage waiting_state"
    "refreshPromise (refresh_finally 1 waiting_state) = None"
    "truthy (refreshToken (refresh_finally 1 waiting_state)) \<longrightarrow>
       fst (refreshAccessToken (refresh_finally 1 waiting_state))
         = Inr (length (net (refresh_finally 1 waiting_state)))"
    by simp_all
  with t a ch c show ?thesis
    by (simp add: waiting_state_fields)
qed





section \<open>Invariants\<close>

text \<open>
  A property that holds after the constructor and that every step preserves holds
  after every run; the waiters of a settled promise are resumed by a fold, which
  preserves what each single resumption preserves.
\<close>

subsection \<open>The calls of a request\<close>

lemma run_invariant:
  assumes "P s0" and "\<And>ev s s'. P s \<Longrightarrow> step ev s = Some s' \<Longrightarrow> P s'"
    and "run evs s0 = Some s"
  shows "P s"
  using assms(1,3)
proof (induction evs arbitrary: s0)
  case Nil
  then show ?case by simp
next
  case (Cons ev evs)
  then show ?case
    by (auto split: option.splits intro: assms(2))
qed

lemma fold_invariant:
  assumes "P s" and "\<And>j s. j \<in> set js \<Longrightarrow> P s \<Longrightarrow> P (f j s)"
  shows "P (fold f js s)"
  using assms by (induction js arbitrary: s) auto

lemma nth_phase_update [simp]:
  "t_url (ts[i := (ts ! i)\<lparr>t_phase := p\<rparr>] ! j) = t_url (ts ! j)"
  "t_options (ts[i := (ts ! i)\<lparr>t_phase := p\<rparr>] ! j) = t_options (ts ! j)"
proof -
  show "t_url (ts[i := (ts ! i)\<lparr>t_phase := p\<rparr>] ! j) = t_url (ts ! j)"
  proof (cases "i < length ts")
    case True
    then show ?thesis by (cases "i = j") (simp_all add: nth_list_update)
  next
    case False
    then show ?thesis by (simp add: list_update_beyond)
  qed
  show "t_options (ts[i := (ts ! i)\<lparr>t_phase := p\<rparr>] ! j) = t_options (ts ! j)"
  proof (cases "i < length ts")
    case True
    then show ?thesis by (cases "i = j") (simp_all add: nth_list_update)
  next
    case False
    then show ?thesis by (simp add: list_update_beyond)
  qed
qed

lemma call_ok_phase:
  "call_ok ts c \<Longrightarrow> call_ok (ts[i := (ts ! i)\<lparr>t_phase := p\<rparr>]) c"
  by (cases "(ts, c)" rule: call_ok.cases) auto

lemma log_inv_cong:
  "log_inv s \<Longrightarrow> net s' = net s \<Longrightarrow> tasks s' = tasks s \<Longrightarrow> log_inv s'"
  by (simp add: log_inv_def calls_of_def)

lemma log_inv_phase:
  assumes "log_inv s" and "net s' = net s"
    and "tasks s' = (tasks s)[i := (tasks s ! i)\<lparr>t_phase := p\<rparr>]"
    and "i < length (tasks s) \<longrightarrow> budget (t_phase (tasks s ! i)) \<le> budget p"
  shows "log_inv s'"
  unfolding log_inv_def
proof (intro conjI ballI allI impI)
  fix c assume "c \<in> set (net s')"
  with assms show "call_ok (tasks s') c"
    by (simp add: log_inv_def call_ok_phase)
next
  fix j assume "j < length (tasks s')"
  with assms show "length (calls_of j s') \<le> budget (t_phase (tasks s' ! j))"
    by (cases "j = i") (auto simp: log_inv_def calls_of_def nth_list_update dest: le_trans)
qed

lemma log_inv_refresh_call:
  assumes "log_inv s" and "net s' = net s @ [Fetch (Refresh pid) u c]" and "tasks s' = tasks s"
  shows "log_inv s'"
  using assms by (auto simp: log_inv_def calls_of_def)

lemma calls_of_beyond:
  assumes "log_inv s" and "length (tasks s) \<le> i"
  shows "calls_of i s = []"
proof -
  have "\<forall>c\<in>set (net s). fc_who c \<noteq> Req i"
  proof
    fix c assume "c \<in> set (net s)"
    with assms(1) have "call_ok (tasks s) c" by (simp add: log_inv_def)
    with assms(2) show "fc_who c \<noteq> Req i"
      by (cases "(tasks s, c)" rule: call_ok.cases) auto
  qed
  then show ?thesis by (simp add: calls_of_def filter_empty_conv)
qed

lemma log_inv_makeRequest:
  assumes "log_inv s" and "i < length (tasks s)"
    and "Suc (length (calls_of i s)) \<le> (if retryCount = 0 then 1 else 2)"
  shows "log_inv (makeRequest i retryCount s)"
  unfolding log_inv_def
proof (intro conjI ballI allI impI)
  fix c assume "c \<in> set (net (makeRequest i retryCount s))"
  then consider "c \<in> set (net s)"
    | "c = Fetch (Req i) (t_url (tasks s ! i)) (make_config s (t_options (tasks s ! i)))"
    by (auto simp: net_makeRequest)
  then show "call_ok (tasks (makeRequest i retryCount s)) c"
  proof cases
    case 1
    with assms(1) show ?thesis by (simp add: log_inv_def call_ok_phase)
  next
    case 2
    with assms(2) show ?thesis by auto
  qed
next
  fix j assume "j < length (tasks (makeRequest i retryCount s))"
  with assms show "length (calls_of j (makeRequest i retryCount s))
      \<le> budget (t_phase (tasks (makeRequest i retryCount s) ! j))"
    by (cases "j = i") (auto simp: log_inv_def calls_of_def net_makeRequest nth_list_update)
qed

lemma log_inv_constructor: "log_inv (constructor ls href)"
  by (simp add: log_inv_def constructor_def Let_def)

lemma log_inv_request:
  assumes "log_inv s"
  shows "log_inv (request endpoint options s)"
proof -
  let ?s1 = "s\<lparr>tasks := tasks s @ [\<lparr>t_url = request_url endpoint options, t_options = options,
      t_phase = AwaitFetch 0\<rparr>]\<rparr>"
  have c0: "calls_of (length (tasks s)) s = []"
    using assms by (rule calls_of_beyond) simp
  have ok: "call_ok (tasks s @ [t]) c" if "call_ok (tasks s) c" for c t
    using that by (cases "(tasks s, c)" rule: call_ok.cases) (auto simp: nth_append)
  have "log_inv ?s1"
    unfolding log_inv_def
  proof (intro conjI ballI allI impI)
    fix c assume "c \<in> set (net ?s1)"
    with assms show "call_ok (tasks ?s1) c" by (simp add: log_inv_def ok)
  next
    fix j assume "j < length (tasks ?s1)"
    then show "length (calls_of j ?s1) \<le> budget (t_phase (tasks ?s1 ! j))"
      using assms c0 by (cases "j = length (tasks s)") (auto simp: log_inv_def calls_of_def nth_append)
  qed
  moreover have "calls_of (length (tasks s)) ?s1 = []"
    using c0 by (simp add: calls_of_def)
  ultimately have "log_inv (makeRequest (length (tasks s)) 0 ?s1)"
    by (intro log_inv_makeRequest) simp_all
  then show ?thesis by (simp add: request_def Let_def)
qed

lemma log_inv_resume:
  assumes "log_inv s" and "j < length (tasks s)"
  shows "log_inv (resume pid r j s)"
proof (cases "t_phase (tasks s ! j) = AwaitRefresh pid")
  case False
  with assms show ?thesis by (simp add: resume_def)
next
  case True
  with assms have le: "length (calls_of j s) \<le> 1" by (auto simp: log_inv_def)
  show ?thesis
  proof (cases r)
    case (Inl e)
    have "log_inv (session_expired j s)"
      by (rule log_inv_phase [OF assms(1), where i = j and p = "Done (Threw SessionExpired)"])
        (simp_all add: True)
    with True Inl show ?thesis by (simp add: resume_def)
  next
    case (Inr d)
    have "log_inv (makeRequest j 1 s)"
      using assms le by (intro log_inv_makeRequest) simp_all
    with True Inr show ?thesis by (simp add: resume_def)
  qed
qed

lemma log_inv_resume_all:
  assumes "log_inv s"
  shows "log_inv (resume_all pid r s)"
proof -
  have "log_inv (fold (resume pid r) [0..<length (tasks s)] s)
      \<and> length (tasks (fold (resume pid r) [0..<length (tasks s)] s)) = length (tasks s)"
    by (rule fold_invariant [where P = "\<lambda>s'. log_inv s' \<and> length (tasks s') = length (tasks s)"])
      (auto simp: assms log_inv_resume)
  then show ?thesis by (simp add: resume_all_def)
qed

lemma log_inv_on_response:
  assumes "log_inv s" and "i < length (tasks s)" and "t_phase (tasks s ! i) = AwaitFetch retryCount"
  shows "log_inv (on_response i retryCount resp s)"
proof -
  have fin: "log_inv (set_phase i (Done out) s)" for out
    by (rule log_inv_phase [OF assms(1), where i = i and p = "Done out"]) (simp_all add: assms(3))
  have exp: "log_inv (session_expired i s')" if "log_inv s'" "tasks s' = tasks s" for s'
    by (rule log_inv_phase [OF that(1), where i = i and p = "Done (Threw SessionExpired)"])
      (simp_all add: that(2) assms(3))
  show ?thesis
  proof (cases "status resp = 401 \<and> retryCount = 0 \<and> truthy (refreshToken s)")
    case False
    then show ?thesis
      by (auto simp: on_response_def fin split: option.splits)
  next
    case True
    obtain res s' where r: "refreshAccessToken s = (res, s')"
      by (cases "refreshAccessToken s")
    have inv': "log_inv s'" and t': "tasks s' = tasks s"
      using r assms(1)
      by (auto simp: refreshAccessToken_def Let_def split: if_splits option.splits prod.splits
          intro: log_inv_refresh_call [OF assms(1)])
    have "log_inv (set_phase i (AwaitRefresh pid) s')" for pid
      by (rule log_inv_phase [OF inv', where i = i and p = "AwaitRefresh pid"])
        (simp_all add: t' assms(3) True)
    with True r exp [OF inv' t'] show ?thesis
      by (auto simp: on_response_def split: sum.splits)
  qed
qed

lemma log_inv_step:
  assumes "log_inv s" and "step ev s = Some s'"
  shows "log_inv s'"
proof (cases ev)
  case (Call endpoint options)
  with assms show ?thesis by (auto simp: step_def log_inv_request)
next
  case (CallSetToken a r)
  with assms show ?thesis by (auto simp: step_def intro: log_inv_cong)
next
  case CallClearTokens
  with assms show ?thesis by (auto simp: step_def intro: log_inv_cong)
next
  case (FetchResolves i resp)
  with assms show ?thesis
    by (auto simp: step_def log_inv_on_response split: if_splits phase.splits)
next
  case (FetchRejects i)
  have "log_inv (set_phase i (Done out) s)" if "t_phase (tasks s ! i) = AwaitFetch rc" for out rc
    by (rule log_inv_phase [OF assms(1), where i = i and p = "Done out"]) (simp_all add: that)
  with FetchRejects assms show ?thesis
    by (auto simp: step_def split: if_splits phase.splits)
next
  case (RefreshEv rv)
  with assms(2) obtain pid r s1 where c: "refresh_chain rv s = Some (pid, r, s1)"
    and s': "s' = (case r of None \<Rightarrow> s1 | Some x \<Rightarrow> resume_all pid x s1)"
    by (auto simp: step_def split: option.splits prod.splits)
  from refresh_chain_tasks [OF c] assms(1) have "log_inv s1"
    by (auto intro: log_inv_cong)
  then show ?thesis
    by (simp add: s' log_inv_resume_all split: option.splits)
qed

lemma log_inv_run: "run evs (constructor ls href) = Some s \<Longrightarrow> log_inv s"
  by (rule run_invariant [where P = log_inv, OF log_inv_constructor log_inv_step])


text \<open>
  C6. In every state that a run from the constructor reaches, a request has issued
  at most two calls, the first attempt and one retry, and any two calls of one
  request have the same URL and the same config (method, body and every other
  property, and every header) except for the \<open>Authorization\<close> header. A response to
  the retry ends the request, whatever its status: no call follows it.
\<close>

theorem retry_once_same_request:
  "(run evs (constructor ls href) = Some s0 \<longrightarrow>
      length (calls_of i s0) \<le> 2 \<and>
      (\<forall>c\<in>set (calls_of i s0). \<forall>c'\<in>set (calls_of i s0).
         fc_url c = fc_url c' \<and>
         without_authorization (fc_init c) = without_authorization (fc_init c'))) \<and>
   (i < length (tasks s) \<and> t_phase (tasks s ! i) = AwaitFetch retryCount \<and> retryCount \<noteq> 0 \<longrightarrow>
      (\<exists>s' out. step (FetchResolves i resp) s = Some s' \<and>
         t_phase (tasks s' ! i) = Done out \<and> net s' = net s))"
proof (intro conjI impI ballI)
  assume "run evs (constructor ls href) = Some s0"
  then have inv: "log_inv s0" by (rule log_inv_run)
  show "length (calls_of i s0) \<le> 2"
  proof (cases "i < length (tasks s0)")
    case True
    with inv have "length (calls_of i s0) \<le> budget (t_phase (tasks s0 ! i))"
      by (simp add: log_inv_def)
    also have "\<dots> \<le> 2" by (cases "t_phase (tasks s0 ! i)") simp_all
    finally show ?thesis .
  next
    case False
    with inv have "calls_of i s0 = []" by (intro calls_of_beyond) simp_all
    then show ?thesis by simp
  qed
  fix c c' assume "c \<in> set (calls_of i s0)" "c' \<in> set (calls_of i s0)"
  with inv have ok: "call_ok (tasks s0) c" "call_ok (tasks s0) c'"
    and who: "fc_who c = Req i" "fc_who c' = Req i"
    by (simp_all add: log_inv_def calls_of_def)
  from ok(1) who(1) obtain \<sigma> where c: "fc_url c = t_url (tasks s0 ! i)"
    "fc_init c = make_config \<sigma> (t_options (tasks s0 ! i))"
    by (cases "(tasks s0, c)" rule: call_ok.cases) auto
  from ok(2) who(2) obtain \<sigma>' where c': "fc_url c' = t_url (tasks s0 ! i)"
    "fc_init c' = make_config \<sigma>' (t_options (tasks s0 ! i))"
    by (cases "(tasks s0, c')" rule: call_ok.cases) auto
  show "fc_url c = fc_url c'" by (simp add: c c')
  show "without_authorization (fc_init c) = without_authorization (fc_init c')"
    unfolding c c' by (rule wa_make_config)
next
  assume a: "i < length (tasks s) \<and> t_phase (tasks s ! i) = AwaitFetch retryCount \<and> retryCount \<noteq> 0"
  then have "step (FetchResolves i resp) s = Some (on_response i retryCount resp s)"
    by (simp add: step_def)
  moreover from a have "\<exists>out. t_phase (tasks (on_response i retryCount resp s) ! i) = Done out \<and>
      net (on_response i retryCount resp s) = net s"
    by (auto simp: on_response_def split: option.splits)
  ultimately show "\<exists>s' out. step (FetchResolves i resp) s = Some s' \<and>
         t_phase (tasks s' ! i) = Done out \<and> net s' = net s"
    by blast
qed

theorem retry_once_same_request_witness:
  "map fc_url (calls_of 0 (the (run retry_events (constructor stored_pair ''/''))))
     = [''http://localhost:8000/api/problems'', ''http://localhost:8000/api/problems''] \<and>
   map (\<lambda>c. header_of (fc_init c) ''Authorization'')
     (calls_of 0 (the (run retry_events (constructor stored_pair ''/''))))
     = [JStr ''Bearer a0'', JStr ''Bearer a1''] \<and>
   length (calls_of 0 (the (run retry_events (constructor stored_pair ''/'')))) \<le> 2 \<and>
   without_authorization (fc_init (calls_of 0 (the (run retry_events (constructor stored_pair ''/''))) ! 0))
     = without_authorization (fc_init (calls_of 0 (the (run retry_events (constructor stored_pair ''/''))) ! 1))"
proof -
  let ?s = "the (run retry_events (constructor stored_pair ''/''))"
  have calls: "calls_of 0 ?s =
     [Fetch (Req 0) ''http://localhost:8000/api/problems''
        [(''headers'', JObj [(''Content-Type'', JStr ''application/json''),
                             (''Authorization'', JStr ''Bearer a0'')]),
         (''method'', JStr ''POST''), (''body'', JStr ''{}'')],
      Fetch (Req 0) ''http://localhost:8000/api/problems''
        [(''headers'', JObj [(''Content-Type'', JStr ''application/json''),
                             (''Authorization'', JStr ''Bearer a1'')]),
         (''method'', JStr ''POST''), (''body'', JStr ''{}'')]]"
    by (simp add: retry_events_def calls_of_def eval_defs stored_pair_def expired_response_def
        new_pair_response_def)
  have "run retry_events (constructor stored_pair ''/'') \<noteq> None"
    by (simp add: retry_events_def eval_defs stored_pair_def expired_response_def
        new_pair_response_def)
  then have r: "run retry_events (constructor stored_pair ''/'') = Some ?s"
    by (cases "run retry_events (constructor stored_pair ''/'')") simp_all
  note t = retry_once_same_request [of retry_events stored_pair "''/''" ?s 0 ?s 0 expired_response]
  note t1 = t [THEN conjunct1, THEN mp, OF r]
  have "length (calls_of 0 ?s) \<le> 2"
    and "\<forall>c\<in>set (calls_of 0 ?s). \<forall>c'\<in>set (calls_of 0 ?s).
         fc_url c = fc_url c' \<and>
         without_authorization (fc_init c) = without_authorization (fc_init c')"
    using t1 by blast+
  moreover have "calls_of 0 ?s ! 0 \<in> set (calls_of 0 ?s)" "calls_of 0 ?s ! 1 \<in> set (calls_of 0 ?s)"
    unfolding calls by simp_all
  ultimately have "length (calls_of 0 ?s) \<le> 2"
    "without_authorization (fc_init (calls_of 0 ?s ! 0))
      = without_authorization (fc_init (calls_of 0 ?s ! 1))"
    by blast+
  moreover have "map fc_url (calls_of 0 ?s)
     = [''http://localhost:8000/api/problems'', ''http://localhost:8000/api/problems'']"
    "map (\<lambda>c. header_of (fc_init c) ''Authorization'') (calls_of 0 ?s)
     = [JStr ''Bearer a0'', JStr ''Bearer a1'']"
    unfolding calls by (simp_all add: header_of_def get_own_def)
  ultimately show ?thesis by blast
qed


subsection \<open>The outstanding refresh\<close>

lemma refresh_ids_append: "refresh_ids (xs @ ys) = refresh_ids xs @ refresh_ids ys"
  by (induction xs rule: refresh_ids.induct) simp_all



















lemma refresh_ids_requests [simp]:
  "refresh_ids (map (\<lambda>j. Fetch (Req j) (u j) (c j)) js) = []"
  by (induction js) simp_all




text \<open>
  From the moment a refresh is pending until it settles: the ghost list of settled
  promises only grows, and a step either settles the pending promise or leaves it
  pending and issues no refresh call.
\<close>

lemma resume_all_settled [simp]: "settled (resume_all pid r s) = settled s"
  by (simp add: resume_all_def)

lemma resume_all_refreshPromise [simp]: "refreshPromise (resume_all pid r s) = refreshPromise s"
  by (simp add: resume_all_def)

lemma resume_all_length [simp]: "length (tasks (resume_all pid r s)) = length (tasks s)"
  by (simp add: resume_all_def)


lemma refresh_ids_resume_all [simp]: "refresh_ids (net (resume_all pid r s)) = refresh_ids (net s)"
proof (cases r)
  case (Inl e)
  then show ?thesis by (simp add: resume_all_def)
next
  case (Inr d)
  then show ?thesis
    by (simp add: resume_all_def fold_resume_ok_net refresh_ids_append)
qed


lemma on_response_settled [simp]: "settled (on_response i rc resp s) = settled s"
  by (auto simp: on_response_def refreshAccessToken_def Let_def
      split: option.splits prod.splits sum.splits)

lemma request_fields [simp]:
  "settled (request endpoint options s) = settled s"
  "refreshPromise (request endpoint options s) = refreshPromise s"
  "refresh_ids (net (request endpoint options s)) = refresh_ids (net s)"
  "length (tasks (request endpoint options s)) = Suc (length (tasks s))"
  by (simp_all add: request_def Let_def net_makeRequest refresh_ids_append)





















end
